theory Spec2Isabelle
  imports Main "HOL-Library.Sublist"
begin

section \<open>Python strings\<close>

text \<open>
  A Python \<open>str\<close> is a sequence of code points. The model takes the code points
  U+0000 .. U+00FF: a \<^typ>\<open>char\<close> is the code point with that number, a \<^typ>\<open>string\<close>
  is a \<open>str\<close> over them. On this range \<open>str.lower\<close> maps each code point to
  one code point, and the case-insensitive comparison of the \<open>re\<close> module agrees
  with comparing the lowered code points.
\<close>

definition newline :: char where
  "newline = CHR 0x0A"

definition backslash :: char where
  "backslash = CHR 0x5C"

definition lower_char :: "char \<Rightarrow> char" where
  \<comment> \<open>\<open>c.lower()\<close> for one code point: A-Z, and U+00C0 .. U+00DE without U+00D7\<close>
  "lower_char c =
     (let n = (of_char c :: nat)
      in if (65 \<le> n \<and> n \<le> 90) \<or> (192 \<le> n \<and> n \<le> 222 \<and> n \<noteq> 215)
         then char_of (n + 32) else c)"

definition str_lower :: "string \<Rightarrow> string" where
  \<comment> \<open>\<open>s.lower()\<close>\<close>
  "str_lower s = map lower_char s"

fun py_in :: "string \<Rightarrow> string \<Rightarrow> bool" where
  \<comment> \<open>\<open>x in s\<close>: \<open>x\<close> occurs in \<open>s\<close> as a contiguous run\<close>
  "py_in x [] = (x = [])"
| "py_in x (c # cs) = (prefix x (c # cs) \<or> py_in x cs)"

fun py_split :: "string \<Rightarrow> string list" where
  \<comment> \<open>\<open>s.split("\n\n")\<close>: cut at each occurrence of two newlines, found left to right\<close>
  "py_split [] = [[]]"
| "py_split [c] = [[c]]"
| "py_split (c # d # cs) =
     (if c = newline \<and> d = newline then [] # py_split cs
      else (case py_split (d # cs) of
              [] \<Rightarrow> [[c]]
            | p # ps \<Rightarrow> (c # p) # ps))"

fun py_join :: "string list \<Rightarrow> string" where
  \<comment> \<open>\<open>"\n\n".join(xs)\<close>\<close>
  "py_join [] = []"
| "py_join [x] = x"
| "py_join (x # y # ys) = x @ [newline, newline] @ py_join (y # ys)"

section \<open>Substitution with an escaped pattern\<close>

text \<open>
  \<open>re.sub(re.escape(p), repl, s, flags=re.IGNORECASE)\<close>. The escaped pattern matches
  the code points of \<open>p\<close> themselves, up to case. The replacement is a template:
  the \<open>re\<close> module compiles it before it searches, and a backslash in it starts an
  escape. The pattern has no groups, so every group reference but group 0 is an error.
  The one error value stands for the exception the template compiler raises
  (\<open>re.error\<close>, or \<open>IndexError\<close> for an unknown group name); the group names follow
  CPython 3.12, where a numeric name consists of ASCII digits.
\<close>

datatype py_error = Template_error

datatype token = Ch char | Esc char

fun tokenize :: "string \<Rightarrow> py_error + token list" where
  \<comment> \<open>the tokenizer: a backslash and the code point after it are one token\<close>
  "tokenize [] = Inr []"
| "tokenize [c] = (if c = backslash then Inl Template_error else Inr [Ch c])"
| "tokenize (c # d # cs) =
     (if c = backslash
      then (case tokenize cs of Inl e \<Rightarrow> Inl e | Inr ts \<Rightarrow> Inr (Esc d # ts))
      else (case tokenize (d # cs) of Inl e \<Rightarrow> Inl e | Inr ts \<Rightarrow> Inr (Ch c # ts)))"

datatype tpl_part = Lit string | Whole_match

definition is_digit :: "char \<Rightarrow> bool" where
  "is_digit c = (48 \<le> (of_char c :: nat) \<and> (of_char c :: nat) \<le> 57)"

definition is_octdigit :: "char \<Rightarrow> bool" where
  "is_octdigit c = (48 \<le> (of_char c :: nat) \<and> (of_char c :: nat) \<le> 55)"

definition is_ascii_letter :: "char \<Rightarrow> bool" where
  "is_ascii_letter c =
     (let n = (of_char c :: nat) in (65 \<le> n \<and> n \<le> 90) \<or> (97 \<le> n \<and> n \<le> 122))"

definition digit_val :: "char \<Rightarrow> nat" where
  "digit_val c = of_char c - 48"

definition escape_char :: "char \<Rightarrow> char option" where
  \<comment> \<open>the table ESCAPES: a, b, f, n, r, t, v and the backslash\<close>
  "escape_char c =
     (if c = CHR ''a'' then Some (CHR 0x07)
      else if c = CHR ''b'' then Some (CHR 0x08)
      else if c = CHR ''f'' then Some (CHR 0x0C)
      else if c = CHR ''n'' then Some (CHR 0x0A)
      else if c = CHR ''r'' then Some (CHR 0x0D)
      else if c = CHR ''t'' then Some (CHR 0x09)
      else if c = CHR ''v'' then Some (CHR 0x0B)
      else if c = backslash then Some backslash
      else None)"

definition group_name :: "token list \<Rightarrow> py_error + tpl_part" where
  \<comment> \<open>the name between \<open>\g<\<close> and \<open>>\<close>: only group 0, the whole match, exists\<close>
  "group_name name =
     (if name \<noteq> [] \<and> list_all (\<lambda>t. t = Ch (CHR ''0'')) name
      then Inr Whole_match else Inl Template_error)"

definition cons_part :: "tpl_part \<Rightarrow> py_error + tpl_part list \<Rightarrow> py_error + tpl_part list" where
  "cons_part p r = (case r of Inl e \<Rightarrow> Inl e | Inr ps \<Rightarrow> Inr (p # ps))"

fun parse_tokens :: "token list \<Rightarrow> py_error + tpl_part list"
  and read_name :: "token list \<Rightarrow> token list \<Rightarrow> py_error + tpl_part list" where
  "parse_tokens [] = Inr []"
| "parse_tokens (Ch c # ts) = cons_part (Lit [c]) (parse_tokens ts)"
| "parse_tokens (Esc c # ts) =
     (if c = CHR ''g'' then
        (case ts of
           Ch x # ts1 \<Rightarrow> (if x = CHR ''<'' then read_name [] ts1 else Inl Template_error)
         | _ \<Rightarrow> Inl Template_error)
      else if c = CHR ''0'' then
        (case ts of
           Ch d1 # ts1 \<Rightarrow>
             (if is_octdigit d1 then
                (case ts1 of
                   Ch d2 # ts2 \<Rightarrow>
                     (if is_octdigit d2
                      then cons_part (Lit [char_of ((digit_val d1 * 8 + digit_val d2) mod 256)])
                             (parse_tokens ts2)
                      else cons_part (Lit [char_of (digit_val d1)]) (parse_tokens ts1))
                 | _ \<Rightarrow> cons_part (Lit [char_of (digit_val d1)]) (parse_tokens ts1))
              else cons_part (Lit [CHR 0x00]) (parse_tokens ts))
         | _ \<Rightarrow> cons_part (Lit [CHR 0x00]) (parse_tokens ts))
      else if is_digit c then
        (case ts of
           Ch d1 # Ch d2 # ts2 \<Rightarrow>
             (if is_octdigit c \<and> is_octdigit d1 \<and> is_octdigit d2
              then (let v = digit_val c * 64 + digit_val d1 * 8 + digit_val d2
                    in if v > 255 then Inl Template_error
                       else cons_part (Lit [char_of v]) (parse_tokens ts2))
              else Inl Template_error)
         | _ \<Rightarrow> Inl Template_error)
      else
        (case escape_char c of
           Some e \<Rightarrow> cons_part (Lit [e]) (parse_tokens ts)
         | None \<Rightarrow>
             (if is_ascii_letter c then Inl Template_error
              else cons_part (Lit [backslash, c]) (parse_tokens ts))))"
| "read_name acc [] = Inl Template_error"
| "read_name acc (t # ts) =
     (if t = Ch (CHR ''>'')
      then (case group_name acc of
              Inl e \<Rightarrow> Inl e
            | Inr p \<Rightarrow> cons_part p (parse_tokens ts))
      else read_name (acc @ [t]) ts)"

definition parse_template :: "string \<Rightarrow> py_error + tpl_part list" where
  "parse_template repl =
     (case tokenize repl of Inl e \<Rightarrow> Inl e | Inr ts \<Rightarrow> parse_tokens ts)"

fun expand_template :: "tpl_part list \<Rightarrow> string \<Rightarrow> string" where
  \<comment> \<open>the replacement for one match \<open>m\<close>\<close>
  "expand_template [] m = []"
| "expand_template (Lit s # ps) m = s @ expand_template ps m"
| "expand_template (Whole_match # ps) m = m @ expand_template ps m"

definition match_here :: "string \<Rightarrow> string \<Rightarrow> bool" where
  \<comment> \<open>the escaped pattern \<open>p\<close> matches at the start of \<open>s\<close>, ignoring case\<close>
  "match_here p s = prefix (str_lower p) (str_lower s)"

fun sub_scan :: "string \<Rightarrow> tpl_part list \<Rightarrow> string \<Rightarrow> string" where
  \<comment> \<open>non-empty pattern: every match, leftmost first, none overlapping the one before\<close>
  "sub_scan p tpl [] = []"
| "sub_scan p tpl (c # cs) =
     (if p \<noteq> [] \<and> match_here p (c # cs)
      then expand_template tpl (take (length p) (c # cs))
           @ sub_scan p tpl (drop (length p - 1) cs)
      else c # sub_scan p tpl cs)"

fun sub_empty :: "tpl_part list \<Rightarrow> string \<Rightarrow> string" where
  \<comment> \<open>empty pattern: an empty match before each code point and at the end\<close>
  "sub_empty tpl [] = expand_template tpl []"
| "sub_empty tpl (c # cs) = expand_template tpl [] @ c # sub_empty tpl cs"

definition re_sub_ignorecase :: "string \<Rightarrow> string \<Rightarrow> string \<Rightarrow> py_error + string" where
  "re_sub_ignorecase p repl s =
     (case parse_template repl of
        Inl e \<Rightarrow> Inl e
      | Inr tpl \<Rightarrow> Inr (if p = [] then sub_empty tpl s else sub_scan p tpl s))"

section \<open>The keyword configuration\<close>

definition KEYWORDS :: "(string \<times> string list) list" where
  \<comment> \<open>the dictionary, in its insertion order\<close>
  "KEYWORDS =
     [(''core_finance'',
        [''financial reporting'', ''month-end closure'', ''reconciliations'',
         ''accounting controls'', ''financial governance'', ''data accuracy'',
         ''compliance'']),
      (''operations'',
        [''Procure-to-Pay'', ''Record-to-Report'', ''transaction flows'',
         ''process efficiency'', ''systems exposure'']),
      (''analysis'',
        [''MIS'', ''variance analysis'', ''financial analysis'', ''decision support''])]"

section \<open>apply_programmatic_bolding\<close>

definition bold :: "string \<Rightarrow> string" where
  \<comment> \<open>the f-string \<open><b>{x}</b>\<close>\<close>
  "bold x = ''<b>'' @ x @ ''</b>''"

definition bold_company :: "string \<Rightarrow> bool \<Rightarrow> string \<Rightarrow> py_error + (string \<times> bool)" where
  \<comment> \<open>lines 63-71: the paragraph and the flag after the company step\<close>
  "bold_company company_name used_company bolded =
     (if \<not> used_company \<and> py_in (str_lower company_name) (str_lower bolded)
      then (case re_sub_ignorecase company_name (bold company_name) bolded of
              Inl e \<Rightarrow> Inl e
            | Inr b \<Rightarrow> Inr (b, True))
      else Inr (bolded, used_company))"

definition collect_group :: "string \<Rightarrow> string list \<Rightarrow> string list \<Rightarrow> string list" where
  \<comment> \<open>lines 76-78: the inner loop appends the keywords of one group that occur\<close>
  "collect_group bolded candidates kws =
     foldl (\<lambda>cands kw. if py_in (str_lower kw) (str_lower bolded) then cands @ [kw] else cands)
       candidates kws"

definition collect_candidates :: "string \<Rightarrow> string list" where
  \<comment> \<open>lines 74-78: the outer loop over \<open>KEYWORDS.values()\<close>\<close>
  "collect_candidates bolded =
     foldl (\<lambda>cands grp. collect_group bolded cands (snd grp)) [] KEYWORDS"

fun bold_keywords :: "string list \<Rightarrow> string \<Rightarrow> py_error + string" where
  \<comment> \<open>lines 81-87: one substitution for each keyword, on the paragraph as it is by then\<close>
  "bold_keywords [] bolded = Inr bolded"
| "bold_keywords (kw # kws) bolded =
     (case re_sub_ignorecase kw (bold kw) bolded of
        Inl e \<Rightarrow> Inl e
      | Inr b \<Rightarrow> bold_keywords kws b)"

definition bold_paragraph :: "string \<Rightarrow> bool \<Rightarrow> string \<Rightarrow> py_error + (string \<times> bool)" where
  \<comment> \<open>lines 61-87: the body of the loop over the paragraphs\<close>
  "bold_paragraph company_name used_company para =
     (case bold_company company_name used_company para of
        Inl e \<Rightarrow> Inl e
      | Inr (bolded, used) \<Rightarrow>
          (case bold_keywords (take 3 (collect_candidates bolded)) bolded of
             Inl e \<Rightarrow> Inl e
           | Inr b \<Rightarrow> Inr (b, used)))"

fun bold_loop :: "string \<Rightarrow> bool \<Rightarrow> string list \<Rightarrow> string list \<Rightarrow> py_error + string list" where
  \<comment> \<open>lines 60-89: the loop, with \<open>used_company\<close> and \<open>result\<close> as its state\<close>
  "bold_loop company_name used_company result [] = Inr result"
| "bold_loop company_name used_company result (para # paragraphs) =
     (case bold_paragraph company_name used_company para of
        Inl e \<Rightarrow> Inl e
      | Inr (b, used) \<Rightarrow> bold_loop company_name used (result @ [b]) paragraphs)"

definition apply_programmatic_bolding :: "string \<Rightarrow> string \<Rightarrow> py_error + string" where
  "apply_programmatic_bolding text company_name =
     (case bold_loop company_name False [] (py_split text) of
        Inl e \<Rightarrow> Inl e
      | Inr result \<Rightarrow> Inr (py_join result))"

section \<open>extract_text\<close>

text \<open>
  An opened PDF is the list of its pages; a page is what \<open>page.extract_text()\<close>
  returns for it, \<open>None\<close> or a \<open>str\<close>.
\<close>

type_synonym pdf = "string option list"

definition is_space :: "char \<Rightarrow> bool" where
  \<comment> \<open>\<open>c.isspace()\<close>: U+0009 .. U+000D, U+001C .. U+0020, U+0085, U+00A0\<close>
  "is_space c =
     (let n = (of_char c :: nat)
      in (9 \<le> n \<and> n \<le> 13) \<or> (28 \<le> n \<and> n \<le> 32) \<or> n = 133 \<or> n = 160)"

definition str_strip :: "string \<Rightarrow> string" where
  \<comment> \<open>\<open>s.strip()\<close>\<close>
  "str_strip s = rev (dropWhile is_space (rev (dropWhile is_space s)))"

fun extract_pages :: "string \<Rightarrow> string option list \<Rightarrow> string" where
  \<comment> \<open>lines 48-51: a page with text adds its text and a newline\<close>
  "extract_pages text [] = text"
| "extract_pages text (page_text # pages) =
     (case page_text of
        None \<Rightarrow> extract_pages text pages
      | Some t \<Rightarrow> (if t \<noteq> [] then extract_pages (text @ t @ [newline]) pages
                  else extract_pages text pages))"

definition extract_text :: "pdf \<Rightarrow> string" where
  "extract_text pdf_file = str_strip (extract_pages [] pdf_file)"

section \<open>generate_cover_letter\<close>

record data =
  name :: string
  company :: string
  role :: string
  email :: string
  mobile :: string
  linkedin :: string

definition unlines :: "string list \<Rightarrow> string" where
  \<comment> \<open>the lines of a literal, each ended by its newline\<close>
  "unlines ls = concat (map (\<lambda>l. l @ [newline]) ls)"

definition jd_section :: "string \<Rightarrow> string" where
  \<comment> \<open>line 132: \<open>jd_text if jd_text else "Not provided"\<close>\<close>
  "jd_section jd_text = (if jd_text \<noteq> [] then jd_text else ''Not provided'')"

definition prompt_before_jd :: "string \<Rightarrow> data \<Rightarrow> string \<Rightarrow> string" where
  \<comment> \<open>lines 95-131 of the f-string\<close>
  "prompt_before_jd resume_text d tone =
     [newline] @ unlines
       [''You are a senior hiring manager and expert cover-letter writer.'',
        [],
        ''CRITICAL TRUTH RULE (NON-NEGOTIABLE):'',
        ''- Do NOT invent experience.'',
        ''- Do NOT claim leadership or implementation unless clearly supported by resume.'',
        ''- If JD skills are not directly present in resume:'',
        ''  - Use derived learning from audit, reconciliations, controls, systems exposure'',
        ''  - Or frame as readiness / strong foundation'',
        ''- Selling is required, exaggeration is forbidden.'',
        [],
        ''STRUCTURE & LENGTH:'',
        ''- STRICT one A4 page'',
        ''- EXACTLY 5 paragraphs'',
        ''- Each paragraph ~5 lines'',
        ''- No fluff, no generic phrases'',
        [],
        ''PARAGRAPH ROLES:'',
        ''1. Why this role at this company (contextual, specific)'',
        ''2. Core CA foundation and accounting credibility (resume-backed)'',
        ''3. Operational / role alignment using direct or derived experience'',
        ''4. Governance, controls, cross-functional maturity'',
        ''5. Forward-looking close with ownership tone'',
        [],
        ''TONE:'',
        ''Company type is: '' @ tone,
        ''Adapt language accordingly (do not mention tone explicitly).'',
        [],
        ''CANDIDATE:'',
        ''Name: '' @ name d,
        ''Company: '' @ company d,
        ''Role: '' @ role d,
        [],
        ''RESUME (ONLY SOURCE OF FACTUAL EXPERIENCE):'',
        resume_text,
        [],
        ''JOB DESCRIPTION:'']"

definition prompt_after_jd :: string where
  \<comment> \<open>lines 132-137 of the f-string, after the job description\<close>
  "prompt_after_jd =
     [newline] @ unlines
       [[],
        ''OUTPUT:'',
        ''Only the 5 body paragraphs.'',
        ''No date. No salutation. No signature.'']"

definition prompt_text :: "string \<Rightarrow> string \<Rightarrow> data \<Rightarrow> string \<Rightarrow> string" where
  "prompt_text resume_text jd_text d tone =
     prompt_before_jd resume_text d tone @ jd_section jd_text @ prompt_after_jd"

text \<open>
  The text-generation service is a parameter: \<open>service prompt\<close> is the content of
  the response to \<open>prompt\<close>, or \<open>None\<close> when the call raises. The requests the
  service has received are a state: the call made by \<open>generate_cover_letter\<close> adds
  its prompt to them.
\<close>

datatype app_error = Bolding_error py_error | Service_error | Markup_error

definition generate_cover_letter ::
  "(string \<Rightarrow> string option) \<Rightarrow> string list \<Rightarrow> string \<Rightarrow> string \<Rightarrow> data \<Rightarrow> string
     \<Rightarrow> string list \<times> (app_error + string)" where
  "generate_cover_letter service requests resume_text jd_text d tone =
     (let prompt = prompt_text resume_text jd_text d tone;
          received = requests @ [prompt]
      in case service prompt of
           None \<Rightarrow> (received, Inl Service_error)
         | Some content \<Rightarrow> (received, Inr (str_strip content)))"

section \<open>create_pdf\<close>

text \<open>
  The model of \<open>create_pdf\<close> is the list \<open>elements\<close> handed to \<open>doc.build\<close>;
  the rendering itself is ReportLab's. The current date and \<open>str.upper\<close> are
  parameters (\<open>upper\<close> leaves the code points of the model). The constructor
  \<open>Paragraph\<close> parses the markup of its text and raises \<open>ValueError\<close> when the
  parser rejects it; the parser is ReportLab's, so what it accepts is the parameter
  \<open>accepts\<close>.
\<close>

datatype style = Body | Header

datatype element = Paragraph string style

definition make_paragraph :: "(string \<Rightarrow> bool) \<Rightarrow> string \<Rightarrow> style \<Rightarrow> app_error + element" where
  \<comment> \<open>the call \<open>Paragraph(text, style)\<close>\<close>
  "make_paragraph accepts t st = (if accepts t then Inr (Paragraph t st) else Inl Markup_error)"

definition header_text :: "(string \<Rightarrow> string) \<Rightarrow> string \<Rightarrow> data \<Rightarrow> string" where
  \<comment> \<open>lines 186-188\<close>
  "header_text upper today d =
     ''<b>'' @ upper (name d) @ ''</b><br/>''
     @ ''Date: '' @ today @ ''<br/><br/>''
     @ ''Dear Hiring Manager,<br/><br/>''"

definition closing_text :: "data \<Rightarrow> string" where
  \<comment> \<open>lines 196-202\<close>
  "closing_text d =
     [newline] @ ''Sincerely,<br/><br/>'' @ [newline]
     @ name d @ ''<br/>'' @ [newline]
     @ mobile d @ ''<br/>'' @ [newline]
     @ email d @ ''<br/>'' @ [newline]
     @ linkedin d @ [newline]"

fun append_paragraphs ::
  "(string \<Rightarrow> bool) \<Rightarrow> element list \<Rightarrow> string list \<Rightarrow> app_error + element list" where
  \<comment> \<open>lines 193-194: the loop appends one body paragraph for each piece, or raises\<close>
  "append_paragraphs accepts elements [] = Inr elements"
| "append_paragraphs accepts elements (para # paras) =
     (case make_paragraph accepts para Body of
        Inl e \<Rightarrow> Inl e
      | Inr p \<Rightarrow> append_paragraphs accepts (elements @ [p]) paras)"

definition create_pdf ::
  "(string \<Rightarrow> bool) \<Rightarrow> (string \<Rightarrow> string) \<Rightarrow> string \<Rightarrow> string \<Rightarrow> data
     \<Rightarrow> app_error + element list" where
  "create_pdf accepts upper today text d =
     (case make_paragraph accepts (header_text upper today d) Header of
        Inl e \<Rightarrow> Inl e
      | Inr header \<Rightarrow>
          (case append_paragraphs accepts [header] (py_split text) of
             Inl e \<Rightarrow> Inl e
           | Inr elements \<Rightarrow>
               (case make_paragraph accepts (closing_text d) Header of
                  Inl e \<Rightarrow> Inl e
                | Inr closing \<Rightarrow> Inr (elements @ [closing]))))"

section \<open>The form and the submit block\<close>

record form =
  resume :: "pdf option"
  jd :: "pdf option"
  name_input :: string
  company_input :: string
  role_input :: string
  tone_input :: string
  email_input :: string
  mobile_input :: string
  linkedin_input :: string

record session_state =
  draft :: "string option"
  session_data :: "data option"

record outcome =
  session :: session_state
  errors_shown :: "string list"
  prompts_sent :: "string list"
  raised :: "app_error option"

definition form_data :: "form \<Rightarrow> data" where
  \<comment> \<open>lines 243-250\<close>
  "form_data f =
     \<lparr>name = name_input f, company = company_input f, role = role_input f,
      email = email_input f, mobile = mobile_input f, linkedin = linkedin_input f\<rparr>"

definition mandatory_error :: string where
  "mandatory_error = ''Resume, Name, Company, and Role are mandatory.''"

definition submit_block :: "(string \<Rightarrow> string option) \<Rightarrow> form \<Rightarrow> session_state \<Rightarrow> outcome" where
  \<comment> \<open>lines 234-256, run when the submit button was pressed; the form holds opened PDFs\<close>
  "submit_block service f s =
     (if resume f = None \<or> name_input f = [] \<or> company_input f = [] \<or> role_input f = []
      then \<lparr>session = s, errors_shown = [mandatory_error], prompts_sent = [], raised = None\<rparr>
      else
        (let resume_text = (case resume f of None \<Rightarrow> [] | Some resume_file \<Rightarrow> extract_text resume_file);
             jd_text = (case jd f of None \<Rightarrow> [] | Some jd_file \<Rightarrow> extract_text jd_file);
             d = form_data f
         in case generate_cover_letter service [] resume_text jd_text d (tone_input f) of
              (received, Inl e) \<Rightarrow>
                \<lparr>session = s, errors_shown = [], prompts_sent = received, raised = Some e\<rparr>
            | (received, Inr generated) \<Rightarrow>
                (case apply_programmatic_bolding generated (company_input f) of
                   Inl e \<Rightarrow>
                     \<lparr>session = s, errors_shown = [], prompts_sent = received,
                      raised = Some (Bolding_error e)\<rparr>
                 | Inr bolded \<Rightarrow>
                     \<lparr>session = \<lparr>draft = Some bolded, session_data = Some d\<rparr>,
                      errors_shown = [], prompts_sent = received, raised = None\<rparr>)))"

section \<open>The keyword step as the specification words it\<close>

text \<open>
  The specification scans the keyword catalog, all categories in their declaration order,
  collects the phrases that occur in the paragraph, takes the first three, and wraps
  every occurrence of each in bold markers. These definitions follow those words; they
  are compared with the loop of the source below.
\<close>

definition catalog :: "string list" where
  "catalog = concat (map snd KEYWORDS)"

fun spec_first_occurrence :: "string \<Rightarrow> string \<Rightarrow> nat option" where
  \<comment> \<open>the index of the first occurrence of the keyword, ignoring case\<close>
  "spec_first_occurrence kw [] = (if kw = [] then Some 0 else None)"
| "spec_first_occurrence kw (c # cs) =
     (if prefix (str_lower kw) (str_lower (c # cs)) then Some 0
      else map_option Suc (spec_first_occurrence kw cs))"

function spec_wrap_every_occurrence :: "string \<Rightarrow> string \<Rightarrow> string" where
  \<comment> \<open>the first occurrence is wrapped, then those of the text after it\<close>
  "spec_wrap_every_occurrence kw s =
     (if kw = [] then s
      else (case spec_first_occurrence kw s of
              None \<Rightarrow> s
            | Some i \<Rightarrow> take i s @ bold kw @ spec_wrap_every_occurrence kw (drop (i + length kw) s)))"
  by pat_completeness auto
termination
proof (relation "measure (\<lambda>(kw, s). length s)")
  show "wf (measure (\<lambda>(kw, s). length s))" by simp
next
  fix kw s :: string and i :: nat
  assume kw: "kw \<noteq> []" and occ: "spec_first_occurrence kw s = Some i"
  from kw occ have "s \<noteq> []" by (cases s) auto
  with kw have "length (drop (i + length kw) s) < length s" by (cases s) auto
  then show "((kw, drop (i + length kw) s), (kw, s)) \<in> measure (\<lambda>(kw, s). length s)" by simp
qed

definition spec_selected_keywords :: "string \<Rightarrow> string list" where
  "spec_selected_keywords para =
     take 3 (filter (\<lambda>kw. py_in (str_lower kw) (str_lower para)) catalog)"

definition spec_wrap_selected :: "string \<Rightarrow> string" where
  "spec_wrap_selected para =
     foldl (\<lambda>t kw. spec_wrap_every_occurrence kw t) para (spec_selected_keywords para)"

text \<open>
  The specification speaks of the lines of the closing block. In the markup of a
  paragraph a line ends at a line-break tag; these are the pieces between the tags.
\<close>

fun spec_lines :: "string \<Rightarrow> string list" where
  "spec_lines [] = [[]]"
| "spec_lines (c # cs) =
     (if prefix ''<br/>'' (c # cs) then [] # spec_lines (drop 4 cs)
      else (case spec_lines cs of
              [] \<Rightarrow> [[c]]
            | l # ls \<Rightarrow> (c # l) # ls))"

section \<open>Evaluation of the string model\<close>

text \<open>
  The same function on the bits of the code point: bit 5 is set for the upper-case
  letters. Evaluation uses this equation.
\<close>

lemma lower_char_bits [code]:
  "lower_char (Char b0 b1 b2 b3 b4 b5 b6 b7) =
     (if b6 \<and> \<not> b5 \<and>
         (if b7 then \<not> (b4 \<and> b2 \<and> b1 \<and> b0)
          else (b0 \<or> b1 \<or> b2 \<or> b3 \<or> b4) \<and> \<not> (b4 \<and> b3 \<and> (b2 \<or> (b1 \<and> b0))))
      then Char b0 b1 b2 b3 b4 True b6 b7
      else Char b0 b1 b2 b3 b4 b5 b6 b7)"
  by (cases b0; cases b1; cases b2; cases b3; cases b4; cases b5; cases b6; cases b7;
      simp add: lower_char_def char_of_def bit_Suc bit_Suc_0_iff)

text \<open>
  The function on a text of two paragraphs: the first holds no match, the second the
  company name and two keywords.
\<close>

lemma two_paragraphs_example:
  "apply_programmatic_bolding
     (''We value integrity.'' @ [newline, newline]
      @ ''At Acme Corp we do month-end closure and MIS work.'') ''Acme Corp''
   = Inr (''We value integrity.'' @ [newline, newline]
      @ ''At <b>Acme Corp</b> we do <b>month-end closure</b> and <b>MIS</b> work.'')"
  by code_simp

section \<open>Splitting and joining paragraphs\<close>

lemma py_in_sublist: "py_in x s \<longleftrightarrow> sublist x s"
  by (induction s) (simp_all add: sublist_Cons_right)

lemma py_split_not_Nil: "py_split s \<noteq> []"
  by (induction s rule: py_split.induct) (auto split: list.splits)

lemma py_join_Cons_Cons: "py_join ((c # p) # ps) = c # py_join (p # ps)"
  by (cases ps) simp_all

lemma py_join_split: "py_join (py_split s) = s"
proof (induction s rule: py_split.induct)
  case (3 c d cs)
  show ?case
  proof (cases "c = newline \<and> d = newline")
    case True
    then show ?thesis using 3 py_split_not_Nil[of cs]
      by (cases "py_split cs") simp_all
  next
    case False
    obtain r rs where r: "py_split (d # cs) = r # rs"
      using py_split_not_Nil[of "d # cs"] by (cases "py_split (d # cs)") auto
    have "py_split (c # d # cs) = (c # r) # rs" using False r by auto
    moreover have "py_join (r # rs) = d # cs" using 3(2)[OF False] r by simp
    ultimately show ?thesis by (simp only: py_join_Cons_Cons)
  qed
qed simp_all

lemma py_split_hd_prefix: "py_split s = q # qs \<Longrightarrow> prefix q s"
proof (induction s arbitrary: q qs rule: py_split.induct)
  case (3 c d cs)
  show ?case
  proof (cases "c = newline \<and> d = newline")
    case True
    then show ?thesis using 3(3) by auto
  next
    case False
    obtain r rs where r: "py_split (d # cs) = r # rs"
      using py_split_not_Nil[of "d # cs"] by (cases "py_split (d # cs)") auto
    from 3(2)[OF False r] have "prefix r (d # cs)" .
    moreover from "3.prems" False r have "q = c # r" by auto
    ultimately show ?thesis by simp
  qed
qed auto

lemma py_split_sublist: "p \<in> set (py_split s) \<Longrightarrow> sublist p s"
proof (induction s arbitrary: p rule: py_split.induct)
  case (3 c d cs)
  show ?case
  proof (cases "c = newline \<and> d = newline")
    case True
    with "3.prems" have "p = [] \<or> p \<in> set (py_split cs)" by auto
    then show ?thesis
    proof
      assume "p = []" then show ?thesis by simp
    next
      assume "p \<in> set (py_split cs)"
      from 3(1)[OF True this] have "sublist p cs" .
      then show ?thesis by (simp add: sublist_Cons_right)
    qed
  next
    case False
    obtain r rs where r: "py_split (d # cs) = r # rs"
      using py_split_not_Nil[of "d # cs"] by (cases "py_split (d # cs)") auto
    from "3.prems" False r have "p = c # r \<or> p \<in> set rs" by auto
    then show ?thesis
    proof
      assume "p = c # r"
      moreover have "prefix r (d # cs)" using py_split_hd_prefix[OF r] .
      ultimately have "prefix p (c # d # cs)" by simp
      then show ?thesis by (rule prefix_imp_sublist)
    next
      assume "p \<in> set rs"
      then have "p \<in> set (py_split (d # cs))" using r by simp
      from 3(2)[OF False this] have "sublist p (d # cs)" .
      then show ?thesis by (simp add: sublist_Cons_right)
    qed
  qed
qed auto

lemma py_split_no_newline: "newline \<notin> set s \<Longrightarrow> py_split s = [s]"
  by (induction s rule: py_split.induct) auto

section \<open>Replacement templates without a backslash\<close>

lemma tokenize_plain: "backslash \<notin> set s \<Longrightarrow> tokenize s = Inr (map Ch s)"
  by (induction s rule: tokenize.induct) auto

lemma parse_tokens_plain: "parse_tokens (map Ch s) = Inr (map (\<lambda>c. Lit [c]) s)"
  by (induction s) (simp_all add: cons_part_def)

lemma parse_template_plain:
  "backslash \<notin> set s \<Longrightarrow> parse_template s = Inr (map (\<lambda>c. Lit [c]) s)"
  by (simp add: parse_template_def tokenize_plain parse_tokens_plain)

lemma expand_template_plain: "expand_template (map (\<lambda>c. Lit [c]) s) m = s"
  by (induction s) simp_all

lemma backslash_bold: "backslash \<notin> set x \<Longrightarrow> backslash \<notin> set (bold x)"
  by (simp add: bold_def backslash_def)

lemma re_sub_plain:
  "backslash \<notin> set x \<Longrightarrow> p \<noteq> [] \<Longrightarrow>
     re_sub_ignorecase p (bold x) s = Inr (sub_scan p (map (\<lambda>c. Lit [c]) (bold x)) s)"
  by (simp add: re_sub_ignorecase_def parse_template_plain backslash_bold)

section \<open>The scan of the substitution\<close>

lemma sub_scan_no_match:
  "\<not> sublist (str_lower p) (str_lower s) \<Longrightarrow> sub_scan p tpl s = s"
proof (induction s)
  case (Cons c cs)
  have "\<not> match_here p (c # cs)"
    using Cons.prems unfolding match_here_def by (auto dest: prefix_imp_sublist)
  moreover have "\<not> sublist (str_lower p) (str_lower cs)"
    using Cons.prems by (simp add: str_lower_def sublist_Cons_right)
  ultimately show ?case using Cons.IH by simp
qed simp

lemma sub_scan_whole:
  assumes "p \<noteq> []" and "str_lower m = str_lower p"
  shows "sub_scan p tpl m = expand_template tpl m"
proof -
  from assms(2) have len: "length m = length p"
    unfolding str_lower_def by (metis length_map)
  with assms(1) obtain c cs where m: "m = c # cs" by (cases m) auto
  have "match_here p (c # cs)" using assms(2) m by (simp add: match_here_def)
  moreover have "take (length p) (c # cs) = m" using len m by simp
  moreover have "drop (length p - 1) cs = []" using len m by simp
  ultimately show ?thesis using assms(1) m by simp
qed

lemma sub_scan_match:
  assumes "p \<noteq> []" and "str_lower m = str_lower p"
  shows "sub_scan p tpl (m @ rest) = expand_template tpl m @ sub_scan p tpl rest"
proof -
  from assms(2) have len: "length m = length p"
    unfolding str_lower_def by (metis length_map)
  with assms(1) obtain c cs where m: "m = c # cs" by (cases m) auto
  have lp: "length p = Suc (length cs)" using len m by simp
  have "prefix (str_lower p) (str_lower m @ str_lower rest)"
    using assms(2) by simp
  then have "match_here p (c # cs @ rest)"
    using m by (simp add: match_here_def str_lower_def)
  moreover have "take (length p) (c # cs @ rest) = m" unfolding lp using m by simp
  moreover have "drop (length p - 1) (cs @ rest) = rest" unfolding lp by simp
  ultimately show ?thesis using assms(1) m by simp
qed

text \<open>
  With the template \<open><b>kw</b>\<close> of a keyword without backslash, the scan of
  \<open>re.sub\<close> is the wrapping of every occurrence, found from the left.
\<close>

lemma sub_scan_wrap:
  "kw \<noteq> [] \<Longrightarrow> sub_scan kw (map (\<lambda>c. Lit [c]) (bold kw)) s = spec_wrap_every_occurrence kw s"
proof (induction kw "map (\<lambda>c. Lit [c]) (bold kw)" s rule: sub_scan.induct)
  case (1 p)
  then show ?case by simp
next
  case (2 p c cs)
  show ?case
  proof (cases "match_here p (c # cs)")
    case True
    then have f: "spec_first_occurrence p (c # cs) = Some 0" by (simp add: match_here_def)
    have "sub_scan p (map (\<lambda>c. Lit [c]) (bold p)) (c # cs)
          = bold p @ sub_scan p (map (\<lambda>c. Lit [c]) (bold p)) (drop (length p - 1) cs)"
      using True 2(3) by (simp add: expand_template_plain)
    also have "\<dots> = bold p @ spec_wrap_every_occurrence p (drop (length p - 1) cs)"
      using 2(1) True 2(3) by simp
    also have "drop (length p - 1) cs = drop (0 + length p) (c # cs)"
      using 2(3) by (cases p) simp_all
    finally show ?thesis using f 2(3) by (subst spec_wrap_every_occurrence.simps) simp
  next
    case False
    have ih: "sub_scan p (map (\<lambda>c. Lit [c]) (bold p)) cs = spec_wrap_every_occurrence p cs"
      using 2(2) False 2(3) by simp
    show ?thesis
    proof (cases "spec_first_occurrence p cs")
      case None
      then have "spec_wrap_every_occurrence p cs = cs"
        using 2(3) by (subst spec_wrap_every_occurrence.simps) simp
      moreover have "spec_first_occurrence p (c # cs) = None"
        using None False by (simp add: match_here_def)
      then have "spec_wrap_every_occurrence p (c # cs) = c # cs"
        using 2(3) by (subst spec_wrap_every_occurrence.simps) simp
      ultimately show ?thesis using False ih by simp
    next
      case (Some i)
      then have "spec_wrap_every_occurrence p cs
                 = take i cs @ bold p @ spec_wrap_every_occurrence p (drop (i + length p) cs)"
        using 2(3) by (subst spec_wrap_every_occurrence.simps) simp
      moreover have "spec_first_occurrence p (c # cs) = Some (Suc i)"
        using Some False by (simp add: match_here_def)
      then have "spec_wrap_every_occurrence p (c # cs)
                 = take (Suc i) (c # cs) @ bold p
                   @ spec_wrap_every_occurrence p (drop (Suc i + length p) (c # cs))"
        using 2(3) by (subst spec_wrap_every_occurrence.simps) simp
      ultimately show ?thesis using False ih by simp
    qed
  qed
qed

lemma wrap_whole:
  assumes "kw \<noteq> []" and "str_lower m = str_lower kw"
  shows "spec_wrap_every_occurrence kw m = bold kw"
  using sub_scan_wrap[OF assms(1), of m] sub_scan_whole[OF assms]
  by (simp add: expand_template_plain)

lemma re_sub_first_occurrence:
  assumes "x \<noteq> []" and "backslash \<notin> set x" and "spec_first_occurrence x s = Some i"
  shows "re_sub_ignorecase x (bold x) s
           = Inr (take i s @ bold x @ spec_wrap_every_occurrence x (drop (i + length x) s))"
proof -
  have "re_sub_ignorecase x (bold x) s = Inr (spec_wrap_every_occurrence x s)"
    using assms(1,2) by (simp add: re_sub_plain sub_scan_wrap)
  also have "spec_wrap_every_occurrence x s
               = take i s @ bold x @ spec_wrap_every_occurrence x (drop (i + length x) s)"
    using assms(1,3) by (subst spec_wrap_every_occurrence.simps) simp
  finally show ?thesis .
qed

section \<open>The keyword step of one paragraph\<close>

lemma collect_group_filter:
  "collect_group b cands kws = cands @ filter (\<lambda>kw. py_in (str_lower kw) (str_lower b)) kws"
  unfolding collect_group_def by (induction kws arbitrary: cands) simp_all

lemma collect_groups_filter:
  "foldl (\<lambda>cands grp. collect_group b cands (snd grp)) acc groups
     = acc @ filter (\<lambda>kw. py_in (str_lower kw) (str_lower b)) (concat (map snd groups))"
  by (induction groups arbitrary: acc) (simp_all add: collect_group_filter)

lemma collect_candidates_filter:
  "collect_candidates b = filter (\<lambda>kw. py_in (str_lower kw) (str_lower b)) catalog"
  by (simp add: collect_candidates_def catalog_def collect_groups_filter)

lemma take_candidates_selected: "take 3 (collect_candidates b) = spec_selected_keywords b"
  by (simp add: spec_selected_keywords_def collect_candidates_filter)

lemma catalog_plain: "\<forall>kw \<in> set catalog. kw \<noteq> [] \<and> backslash \<notin> set kw"
  by code_simp

lemma selected_in_catalog: "set (spec_selected_keywords b) \<subseteq> set catalog"
  unfolding spec_selected_keywords_def by (meson filter_is_subset set_take_subset subset_trans)

lemma bold_keywords_wrap:
  "set kws \<subseteq> set catalog \<Longrightarrow>
     bold_keywords kws b = Inr (foldl (\<lambda>t kw. spec_wrap_every_occurrence kw t) b kws)"
proof (induction kws arbitrary: b)
  case (Cons kw kws)
  then have "kw \<noteq> []" "backslash \<notin> set kw" using catalog_plain by auto
  then have "re_sub_ignorecase kw (bold kw) b = Inr (spec_wrap_every_occurrence kw b)"
    by (simp add: re_sub_plain sub_scan_wrap)
  then show ?case using Cons by simp
qed simp

lemma bold_paragraph_wrap:
  "bold_paragraph company_name used_company para =
     (case bold_company company_name used_company para of
        Inl e \<Rightarrow> Inl e
      | Inr (bolded, used) \<Rightarrow> Inr (spec_wrap_selected bolded, used))"
  by (simp add: bold_paragraph_def take_candidates_selected bold_keywords_wrap
        selected_in_catalog spec_wrap_selected_def split: sum.splits prod.splits)

lemma wrap_selected_none:
  "\<forall>kw \<in> set catalog. \<not> py_in (str_lower kw) (str_lower para) \<Longrightarrow> spec_wrap_selected para = para"
  by (simp add: spec_wrap_selected_def spec_selected_keywords_def)

section \<open>Texts without the company name\<close>

lemma bold_company_absent:
  "\<not> py_in (str_lower company_name) (str_lower para) \<Longrightarrow>
     bold_company company_name used para = Inr (para, used)"
  by (simp add: bold_company_def)

lemma bold_loop_absent:
  "\<forall>p \<in> set paras. \<not> py_in (str_lower company_name) (str_lower p) \<Longrightarrow>
     bold_loop company_name used result paras = Inr (result @ map spec_wrap_selected paras)"
  by (induction paras arbitrary: used result)
     (simp_all add: bold_paragraph_wrap bold_company_absent)

lemma absent_in_paragraph:
  assumes "\<not> py_in (str_lower x) (str_lower text)" and "p \<in> set (py_split text)"
  shows "\<not> py_in (str_lower x) (str_lower p)"
proof
  assume "py_in (str_lower x) (str_lower p)"
  then have "sublist (str_lower x) (str_lower p)" by (simp add: py_in_sublist)
  moreover have "sublist (str_lower p) (str_lower text)"
    unfolding str_lower_def using py_split_sublist[OF assms(2)] by (rule map_mono_sublist)
  ultimately have "sublist (str_lower x) (str_lower text)" by (rule sublist_order.order_trans)
  then show False using assms(1) by (simp add: py_in_sublist)
qed

lemma apply_absent:
  assumes "\<not> py_in (str_lower company_name) (str_lower text)"
  shows "apply_programmatic_bolding text company_name
           = Inr (py_join (map spec_wrap_selected (py_split text)))"
proof -
  have "\<forall>p \<in> set (py_split text). \<not> py_in (str_lower company_name) (str_lower p)"
    using absent_in_paragraph[OF assms] by blast
  then show ?thesis by (simp add: apply_programmatic_bolding_def bold_loop_absent)
qed

section \<open>Texts that are one match\<close>

lemma lower_char_newline: "lower_char c = newline \<longleftrightarrow> c = newline"
  by (cases c) (auto simp: lower_char_bits newline_def)

lemma newline_str_lower: "newline \<in> set (str_lower s) \<longleftrightarrow> newline \<in> set s"
proof -
  have "lower_char newline = newline" by (simp add: lower_char_newline)
  then show ?thesis
    unfolding str_lower_def by (metis (no_types) image_iff lower_char_newline set_map)
qed

lemma str_lower_bold: "str_lower (bold x) = bold (str_lower x)"
  by (simp add: bold_def str_lower_def lower_char_def)

lemma sublist_split_at:
  assumes "c \<notin> set k" and "sublist k (a @ c # b)"
  shows "sublist k a \<or> sublist k b"
proof -
  from assms(2) consider "sublist k a" | "sublist k (c # b)"
    | xs1 xs2 where "k = xs1 @ xs2" "suffix xs1 a" "prefix xs2 (c # b)"
    by (auto simp: sublist_append)
  then show ?thesis
  proof cases
    case 1 then show ?thesis by simp
  next
    case 2
    then have "prefix k (c # b) \<or> sublist k b" by (simp add: sublist_Cons_right)
    moreover have "prefix k (c # b) \<Longrightarrow> k = []" using assms(1) by (cases k) auto
    ultimately show ?thesis by auto
  next
    case 3
    have "xs2 = []" using 3(1,3) assms(1) by (cases xs2) auto
    then show ?thesis using 3 by auto
  qed
qed

lemma sublist_bold:
  assumes "CHR ''<'' \<notin> set k" and "CHR ''>'' \<notin> set k" and "3 \<le> length k"
      and "sublist k (bold x)"
  shows "sublist k x"
proof -
  have short: "\<And>y. length y < 3 \<Longrightarrow> \<not> sublist k y"
    using assms(3) by (auto dest: sublist_length_le)
  have "sublist k ([] @ CHR ''<'' # (''b'' @ CHR ''>'' # (x @ CHR ''<'' # (''/b'' @ CHR ''>'' # []))))"
    using assms(4) by (simp add: bold_def)
  then have "sublist k (''b'' @ CHR ''>'' # (x @ CHR ''<'' # (''/b'' @ CHR ''>'' # [])))"
    using sublist_split_at[OF assms(1)] short[of "[]"] by fastforce
  then have "sublist k (x @ CHR ''<'' # (''/b'' @ CHR ''>'' # []))"
    using sublist_split_at[OF assms(2)] short[of "''b''"] by fastforce
  then have "sublist k x \<or> sublist k (''/b'' @ CHR ''>'' # [])"
    using sublist_split_at[OF assms(1)] by blast
  moreover have "\<not> sublist k (''/b'' @ CHR ''>'' # [])"
    using sublist_split_at[OF assms(2), of "''/b''" "[]"] short[of "''/b''"] short[of "[]"]
    by fastforce
  ultimately show ?thesis by blast
qed

lemma catalog_lower_shape:
  "\<forall>kw \<in> set catalog. CHR ''<'' \<notin> set (str_lower kw) \<and> CHR ''>'' \<notin> set (str_lower kw)
      \<and> 3 \<le> length (str_lower kw) \<and> newline \<notin> set kw"
  by code_simp

lemma catalog_selects_itself: "\<forall>kw \<in> set catalog. spec_selected_keywords kw = [kw]"
  by code_simp

lemma catalog_second_pass:
  "\<forall>kw \<in> set catalog. py_join (map spec_wrap_selected (py_split (bold kw))) = bold (bold kw)"
  by code_simp

lemma selected_keywords_lower:
  "str_lower a = str_lower b \<Longrightarrow> spec_selected_keywords a = spec_selected_keywords b"
  by (simp add: spec_selected_keywords_def)

lemma keyword_variant_first_pass:
  assumes "kw \<in> set catalog" and "str_lower m = str_lower kw"
      and "\<not> py_in (str_lower company_name) (str_lower m)"
  shows "apply_programmatic_bolding m company_name = Inr (bold kw)"
proof -
  have kw: "kw \<noteq> []" "newline \<notin> set kw"
    using assms(1) catalog_plain catalog_lower_shape by auto
  have "newline \<notin> set m"
    using kw(2) assms(2) newline_str_lower[of m] newline_str_lower[of kw] by simp
  then have split: "py_split m = [m]" by (rule py_split_no_newline)
  have "spec_selected_keywords m = [kw]"
    using selected_keywords_lower[OF assms(2)] catalog_selects_itself assms(1) by simp
  then have "spec_wrap_selected m = bold kw"
    using wrap_whole[OF kw(1) assms(2)] by (simp add: spec_wrap_selected_def)
  then show ?thesis using apply_absent[OF assms(3)] split by simp
qed

lemma company_variant_first_pass:
  assumes "company_name \<noteq> []" and "backslash \<notin> set company_name" and "newline \<notin> set m"
      and "str_lower m = str_lower company_name"
      and "\<forall>kw \<in> set catalog. \<not> py_in (str_lower kw) (str_lower m)"
  shows "apply_programmatic_bolding m company_name = Inr (bold company_name)"
proof -
  have "re_sub_ignorecase company_name (bold company_name) m = Inr (bold company_name)"
    using re_sub_plain[OF assms(2,1)] sub_scan_whole[OF assms(1,4)]
    by (simp add: expand_template_plain)
  then have company: "bold_company company_name False m = Inr (bold company_name, True)"
    using assms(4) by (simp add: bold_company_def py_in_sublist)
  have "\<forall>kw \<in> set catalog. \<not> py_in (str_lower kw) (str_lower (bold company_name))"
  proof
    fix kw assume kw: "kw \<in> set catalog"
    show "\<not> py_in (str_lower kw) (str_lower (bold company_name))"
    proof
      assume "py_in (str_lower kw) (str_lower (bold company_name))"
      then have "sublist (str_lower kw) (bold (str_lower company_name))"
        by (simp add: py_in_sublist str_lower_bold)
      then have "sublist (str_lower kw) (str_lower company_name)"
        using sublist_bold catalog_lower_shape kw by blast
      then show False using assms(4,5) kw by (simp add: py_in_sublist)
    qed
  qed
  then have "spec_wrap_selected (bold company_name) = bold company_name"
    by (rule wrap_selected_none)
  then have "bold_paragraph company_name False m = Inr (bold company_name, True)"
    using company by (simp add: bold_paragraph_wrap)
  then show ?thesis
    using py_split_no_newline[OF assms(3)] by (simp add: apply_programmatic_bolding_def)
qed

section \<open>A marked text given to the function again\<close>

lemma lower_char_markup:
  "lower_char c = CHR ''<'' \<longleftrightarrow> c = CHR ''<''"
  "lower_char c = CHR ''>'' \<longleftrightarrow> c = CHR ''>''"
  "lower_char c = CHR ''/'' \<longleftrightarrow> c = CHR ''/''"
  by (cases c; auto simp: lower_char_bits)+

lemma markup_str_lower:
  "CHR ''<'' \<in> set (str_lower s) \<longleftrightarrow> CHR ''<'' \<in> set s"
  "CHR ''>'' \<in> set (str_lower s) \<longleftrightarrow> CHR ''>'' \<in> set s"
  "CHR ''/'' \<in> set (str_lower s) \<longleftrightarrow> CHR ''/'' \<in> set s"
  unfolding str_lower_def by (auto simp: lower_char_markup image_iff) (metis lower_char_markup)+

lemma prefix_before_char:
  "c \<notin> set k \<Longrightarrow> prefix k (a @ c # b) \<longleftrightarrow> prefix k a"
  by (auto simp: prefix_append prefix_Cons)

lemma match_here_before_lt:
  assumes "CHR ''<'' \<notin> set p"
  shows "match_here p (a @ CHR ''<'' # rest) \<longleftrightarrow> match_here p a"
proof -
  have "CHR ''<'' \<notin> set (str_lower p)" using assms by (simp add: markup_str_lower)
  moreover have "str_lower (a @ CHR ''<'' # rest) = str_lower a @ CHR ''<'' # str_lower rest"
    by (simp add: str_lower_def lower_char_markup)
  ultimately show ?thesis by (simp add: match_here_def prefix_before_char)
qed

lemma match_here_length: "match_here p s \<Longrightarrow> length p \<le> length s"
  unfolding match_here_def str_lower_def by (metis length_map prefix_length_le)

text \<open>
  A match holds no \<open><\<close>, so the scan of the text before a marker does not depend
  on what follows it.
\<close>

lemma sub_scan_before_lt:
  "CHR ''<'' \<notin> set p \<Longrightarrow>
     sub_scan p tpl (pre @ CHR ''<'' # rest)
       = sub_scan p tpl pre @ sub_scan p tpl (CHR ''<'' # rest)"
proof (induction p tpl pre rule: sub_scan.induct)
  case (1 p tpl)
  then show ?case by simp
next
  case (2 p tpl c cs)
  show ?case
  proof (cases "p \<noteq> [] \<and> match_here p (c # cs)")
    case True
    then have len: "length p \<le> Suc (length cs)" using match_here_length by fastforce
    have m: "match_here p ((c # cs) @ CHR ''<'' # rest)"
      using True match_here_before_lt[OF "2.prems"] by blast
    obtain n where n: "length p = Suc n" "n \<le> length cs"
      using True len by (cases p) auto
    have "sub_scan p tpl ((c # cs) @ CHR ''<'' # rest)
            = expand_template tpl (take (length p) (c # cs))
              @ sub_scan p tpl (drop (length p - 1) cs @ CHR ''<'' # rest)"
      using True m by (simp add: n)
    also have "sub_scan p tpl (drop (length p - 1) cs @ CHR ''<'' # rest)
            = sub_scan p tpl (drop (length p - 1) cs) @ sub_scan p tpl (CHR ''<'' # rest)"
      using 2(1)[OF True "2.prems"] .
    finally show ?thesis using True by simp
  next
    case False
    then have "\<not> (p \<noteq> [] \<and> match_here p ((c # cs) @ CHR ''<'' # rest))"
      using match_here_before_lt[OF "2.prems"] by blast
    then have m: "(p \<noteq> [] \<and> match_here p (c # cs @ CHR ''<'' # rest)) = False"
      by simp
    have f: "(p \<noteq> [] \<and> match_here p (c # cs)) = False" using False by simp
    have "sub_scan p tpl ((c # cs) @ CHR ''<'' # rest)
            = c # sub_scan p tpl (cs @ CHR ''<'' # rest)"
      by (simp only: append_Cons sub_scan.simps m if_False)
    moreover have "sub_scan p tpl (c # cs) = c # sub_scan p tpl cs"
      by (simp only: sub_scan.simps f if_False)
    ultimately show ?thesis using 2(2)[OF False "2.prems"] by simp
  qed
qed

text \<open>
  The scan of \<open><b>p</b>\<close> for \<open>p\<close> itself: the markers hold no match, the
  name between them is one.
\<close>

lemma sub_scan_bold_then:
  assumes ne: "p \<noteq> []" and lt: "CHR ''<'' \<notin> set p" and gt: "CHR ''>'' \<notin> set p"
      and sl: "CHR ''/'' \<notin> set p" and b: "str_lower p \<noteq> ''b''"
  shows "sub_scan p tpl (bold p @ post)
           = ''<b>'' @ expand_template tpl p @ ''</b>'' @ sub_scan p tpl post"
proof -
  let ?k = "str_lower p"
  have k: "?k \<noteq> []" "CHR ''<'' \<notin> set ?k" "CHR ''>'' \<notin> set ?k" "CHR ''/'' \<notin> set ?k"
    using ne lt gt sl by (simp_all add: markup_str_lower) (simp add: str_lower_def)
  have lb: "lower_char (CHR ''<'') = CHR ''<''" "lower_char (CHR ''/'') = CHR ''/''"
    "lower_char (CHR ''b'') = CHR ''b''" "lower_char (CHR ''>'') = CHR ''>''"
    by code_simp+
  have m1: "\<not> match_here p (CHR ''<'' # s)" for s
    using k(1,2) by (cases ?k) (auto simp: match_here_def str_lower_def lb)
  have m3: "\<not> match_here p (CHR ''>'' # s)" for s
    using k(1,3) by (cases ?k) (auto simp: match_here_def str_lower_def lb)
  have m4: "\<not> match_here p (CHR ''/'' # s)" for s
    using k(1,4) by (cases ?k) (auto simp: match_here_def str_lower_def lb)
  have m2: "\<not> match_here p (CHR ''b'' # CHR ''>'' # s)" for s
  proof
    assume "match_here p (CHR ''b'' # CHR ''>'' # s)"
    then have "prefix ?k (CHR ''b'' # CHR ''>'' # str_lower s)"
      by (simp add: match_here_def str_lower_def lb)
    then show False using k(1,3) b
      by (cases ?k; cases "tl ?k") (auto simp: prefix_Cons)
  qed
  have "bold p @ post = CHR ''<'' # CHR ''b'' # CHR ''>'' # (p @ ''</b>'' @ post)"
    by (simp add: bold_def)
  then have "sub_scan p tpl (bold p @ post)
             = CHR ''<'' # CHR ''b'' # CHR ''>'' # sub_scan p tpl (p @ ''</b>'' @ post)"
    using m1 m2 m3 by simp
  also have "sub_scan p tpl (p @ ''</b>'' @ post)
             = expand_template tpl p @ sub_scan p tpl (''</b>'' @ post)"
    by (rule sub_scan_match[OF ne refl])
  also have "sub_scan p tpl (''</b>'' @ post) = ''</b>'' @ sub_scan p tpl post"
    using m1 m2 m3 m4 by simp
  finally show ?thesis by simp
qed

lemma sub_scan_bold_again:
  assumes "p \<noteq> []" and "CHR ''<'' \<notin> set p" and "CHR ''>'' \<notin> set p"
      and "CHR ''/'' \<notin> set p" and "str_lower p \<noteq> ''b''"
  shows "sub_scan p tpl (bold p) = ''<b>'' @ expand_template tpl p @ ''</b>''"
  using sub_scan_bold_then[OF assms, of tpl "[]"] by simp

lemma rewrap_anywhere:
  assumes ne: "x \<noteq> []" and bs: "backslash \<notin> set x"
      and lt: "CHR ''<'' \<notin> set x" and gt: "CHR ''>'' \<notin> set x"
      and sl: "CHR ''/'' \<notin> set x" and b: "str_lower x \<noteq> ''b''"
  shows "re_sub_ignorecase x (bold x) (pre @ bold x @ post)
           = Inr (spec_wrap_every_occurrence x pre @ bold (bold x)
                  @ spec_wrap_every_occurrence x post)"
proof -
  let ?t = "map (\<lambda>c. Lit [c]) (bold x)"
  have "bold x @ post = CHR ''<'' # (''b>'' @ x @ ''</b>'' @ post)" by (simp add: bold_def)
  then have "sub_scan x ?t (pre @ bold x @ post)
               = sub_scan x ?t pre @ sub_scan x ?t (bold x @ post)"
    using sub_scan_before_lt[OF lt, of ?t pre] by simp
  also have "sub_scan x ?t (bold x @ post)
               = ''<b>'' @ expand_template ?t x @ ''</b>'' @ sub_scan x ?t post"
    by (rule sub_scan_bold_then[OF ne lt gt sl b])
  also have "expand_template ?t x = bold x" by (rule expand_template_plain)
  also have "''<b>'' @ bold x @ ''</b>'' @ sub_scan x ?t post
               = bold (bold x) @ sub_scan x ?t post"
    by (simp add: bold_def)
  finally have "sub_scan x ?t (pre @ bold x @ post)
               = spec_wrap_every_occurrence x pre @ bold (bold x)
                 @ spec_wrap_every_occurrence x post"
    by (simp add: sub_scan_wrap[OF ne])
  then show ?thesis using re_sub_plain[OF bs ne] by simp
qed

lemma keyword_variant_second_pass:
  assumes "kw \<in> set catalog"
      and "\<not> py_in (str_lower company_name) (str_lower (bold kw))"
  shows "apply_programmatic_bolding (bold kw) company_name = Inr (bold (bold kw))"
  using apply_absent[OF assms(2)] catalog_second_pass assms(1) by simp

lemma company_variant_second_pass:
  assumes ne: "company_name \<noteq> []" and bs: "backslash \<notin> set company_name"
      and nl: "newline \<notin> set company_name"
      and lt: "CHR ''<'' \<notin> set company_name" and gt: "CHR ''>'' \<notin> set company_name"
      and sl: "CHR ''/'' \<notin> set company_name" and b: "str_lower company_name \<noteq> ''b''"
      and kws: "\<forall>kw \<in> set catalog. \<not> py_in (str_lower kw) (str_lower company_name)"
  shows "apply_programmatic_bolding (bold company_name) company_name
           = Inr (bold (bold company_name))"
proof -
  have "sub_scan company_name (map (\<lambda>c. Lit [c]) (bold company_name)) (bold company_name)
          = ''<b>'' @ expand_template (map (\<lambda>c. Lit [c]) (bold company_name)) company_name
            @ ''</b>''"
    by (rule sub_scan_bold_again[OF ne lt gt sl b])
  also have "expand_template (map (\<lambda>c. Lit [c]) (bold company_name)) company_name
          = bold company_name"
    by (rule expand_template_plain)
  also have "''<b>'' @ bold company_name @ ''</b>'' = bold (bold company_name)"
    by (simp add: bold_def)
  finally have "re_sub_ignorecase company_name (bold company_name) (bold company_name)
          = Inr (bold (bold company_name))"
    using re_sub_plain[OF bs ne] by simp
  moreover have "sublist (str_lower company_name) (bold (str_lower company_name))"
    unfolding bold_def by (rule sublist_appendI)
  ultimately have company:
    "bold_company company_name False (bold company_name) = Inr (bold (bold company_name), True)"
    by (simp add: bold_company_def py_in_sublist str_lower_bold)
  have "\<forall>kw \<in> set catalog. \<not> py_in (str_lower kw) (str_lower (bold (bold company_name)))"
  proof
    fix kw assume kw: "kw \<in> set catalog"
    show "\<not> py_in (str_lower kw) (str_lower (bold (bold company_name)))"
    proof
      assume "py_in (str_lower kw) (str_lower (bold (bold company_name)))"
      then have "sublist (str_lower kw) (bold (bold (str_lower company_name)))"
        by (simp add: py_in_sublist str_lower_bold)
      then have "sublist (str_lower kw) (bold (str_lower company_name))"
        using sublist_bold catalog_lower_shape kw by blast
      then have "sublist (str_lower kw) (str_lower company_name)"
        using sublist_bold catalog_lower_shape kw by blast
      then show False using kws kw by (simp add: py_in_sublist)
    qed
  qed
  then have "spec_wrap_selected (bold (bold company_name)) = bold (bold company_name)"
    by (rule wrap_selected_none)
  then have "bold_paragraph company_name False (bold company_name)
               = Inr (bold (bold company_name), True)"
    using company by (simp add: bold_paragraph_wrap)
  moreover have "newline \<notin> set (bold company_name)"
    using nl by (simp add: bold_def newline_def)
  ultimately show ?thesis
    using py_split_no_newline by (simp add: apply_programmatic_bolding_def)
qed

lemma keyword_variant_both_passes:
  assumes "kw \<in> set catalog" and "str_lower m = str_lower kw"
      and "\<not> py_in (str_lower company_name) (str_lower (bold kw))"
  shows "apply_programmatic_bolding m company_name = Inr (bold kw)
       \<and> apply_programmatic_bolding (bold kw) company_name = Inr (bold (bold kw))"
proof -
  have "sublist (str_lower kw) (bold (str_lower kw))"
    unfolding bold_def by (rule sublist_appendI)
  then have "sublist (str_lower m) (str_lower (bold kw))"
    using assms(2) by (simp only: str_lower_bold)
  then have absent: "\<not> py_in (str_lower company_name) (str_lower m)"
    using assms(3) by (auto simp: py_in_sublist dest: sublist_order.order_trans)
  show ?thesis
    using keyword_variant_first_pass[OF assms(1,2) absent]
      keyword_variant_second_pass[OF assms(1,3)] by simp
qed

lemma company_variant_both_passes:
  assumes "company_name \<noteq> []" and "backslash \<notin> set company_name"
      and "newline \<notin> set company_name"
      and "CHR ''<'' \<notin> set company_name" and "CHR ''>'' \<notin> set company_name"
      and "CHR ''/'' \<notin> set company_name" and "str_lower company_name \<noteq> ''b''"
      and "str_lower m = str_lower company_name"
      and "\<forall>kw \<in> set catalog. \<not> py_in (str_lower kw) (str_lower m)"
  shows "apply_programmatic_bolding m company_name = Inr (bold company_name)
       \<and> apply_programmatic_bolding (bold company_name) company_name
           = Inr (bold (bold company_name))"
proof -
  have "newline \<notin> set m"
    using assms(3,8) newline_str_lower[of m] newline_str_lower[of company_name] by simp
  then have "apply_programmatic_bolding m company_name = Inr (bold company_name)"
    using company_variant_first_pass assms by blast
  moreover have "apply_programmatic_bolding (bold company_name) company_name
           = Inr (bold (bold company_name))"
    using company_variant_second_pass assms by simp
  ultimately show ?thesis by simp
qed

section \<open>The company name is bolded at every occurrence of one paragraph\<close>

lemma bold_company_used:
  "bold_company company_name True para = Inr (para, True)"
  by (simp add: bold_company_def)

text \<open>
  Claim C1: the company name is wrapped at most once in the whole output; when it occurs
  \<open>k\<close> times in one paragraph, exactly one occurrence is wrapped. The comment of the
  source says "Bold company name once", and the flag \<open>used_company\<close> keeps the later
  paragraphs free of it (\<open>bold_company_used\<close>); but the substitution has no count, so
  in the first paragraph that holds the name every occurrence is wrapped. Here the name
  occurs twice in one paragraph and both occurrences are bolded.
\<close>

theorem C1_company_bolded_more_than_once:
  "apply_programmatic_bolding ''Acme is hiring. I admire Acme.'' ''Acme''
     = Inr ''<b>Acme</b> is hiring. I admire <b>Acme</b>.''"
  by code_simp

section \<open>A second pass over marked text\<close>

text \<open>
  Claim C2, as stated: running \<open>apply_programmatic_bolding\<close> again on its own output
  gives no term a second, nested pair of bold markers. It does: the markers of the first
  pass are ordinary text for the second, which finds the company name inside them.
\<close>

theorem C2_rerun_double_wraps:
  "apply_programmatic_bolding ''Acme'' ''Acme'' = Inr ''<b>Acme</b>''
   \<and> apply_programmatic_bolding ''<b>Acme</b>'' ''Acme'' = Inr ''<b><b>Acme</b></b>''"
  by code_simp

text \<open>
  Claim C2, amended: a second pass can give a term a second, nested pair of markers,
  since it reads the markers of the first pass as ordinary text. Three cases are proved.
  A paragraph that is a catalog keyword in any casing, when the company name does not
  occur in the keyword in markers: the first pass gives the keyword in one pair of
  markers, and the second pass, run on that output, gives it in two nested pairs. A
  paragraph that is the company name in any casing, when the name is not empty, holds no
  backslash, newline, \<open><\<close>, \<open>>\<close> or \<open>/\<close>, is not the letter b, and no
  catalog keyword occurs in it: the same. And in any text, the substitution that both
  steps call, for such a name \<open>x\<close>, turns a span \<open><b>x</b>\<close> into
  \<open><b><b>x</b></b>\<close>, beside wrapping the occurrences of \<open>x\<close> before and after
  that span.
\<close>

theorem C2_second_pass_wraps_again:
  "(kw \<in> set catalog \<and> str_lower m = str_lower kw
      \<and> \<not> py_in (str_lower company_name) (str_lower (bold kw))
     \<longrightarrow> apply_programmatic_bolding m company_name = Inr (bold kw)
         \<and> apply_programmatic_bolding (bold kw) company_name = Inr (bold (bold kw)))
   \<and> (company_name' \<noteq> [] \<and> backslash \<notin> set company_name' \<and> newline \<notin> set company_name'
      \<and> CHR ''<'' \<notin> set company_name' \<and> CHR ''>'' \<notin> set company_name'
      \<and> CHR ''/'' \<notin> set company_name' \<and> str_lower company_name' \<noteq> ''b''
      \<and> str_lower m' = str_lower company_name'
      \<and> (\<forall>k \<in> set catalog. \<not> py_in (str_lower k) (str_lower m'))
     \<longrightarrow> apply_programmatic_bolding m' company_name' = Inr (bold company_name')
         \<and> apply_programmatic_bolding (bold company_name') company_name'
             = Inr (bold (bold company_name')))
   \<and> (x \<noteq> [] \<and> backslash \<notin> set x \<and> CHR ''<'' \<notin> set x \<and> CHR ''>'' \<notin> set x
      \<and> CHR ''/'' \<notin> set x \<and> str_lower x \<noteq> ''b''
     \<longrightarrow> re_sub_ignorecase x (bold x) (pre @ bold x @ post)
           = Inr (spec_wrap_every_occurrence x pre @ bold (bold x)
                  @ spec_wrap_every_occurrence x post))"
  using keyword_variant_both_passes company_variant_both_passes rewrap_anywhere by blast

text \<open>
  The theorem for the keyword MIS, met in lower case, for the company name "Acme Corp",
  met in upper case, and for the substitution of "Acme" in a text that holds the name
  once in markers and once without.
\<close>

theorem C2_second_pass_wraps_again_witness:
  "apply_programmatic_bolding ''mis'' ''Acme'' = Inr ''<b>MIS</b>''
   \<and> apply_programmatic_bolding ''<b>MIS</b>'' ''Acme'' = Inr ''<b><b>MIS</b></b>''
   \<and> apply_programmatic_bolding ''ACME CORP'' ''Acme Corp'' = Inr ''<b>Acme Corp</b>''
   \<and> apply_programmatic_bolding ''<b>Acme Corp</b>'' ''Acme Corp''
       = Inr ''<b><b>Acme Corp</b></b>''
   \<and> re_sub_ignorecase ''Acme'' (bold ''Acme'') (''Join '' @ bold ''Acme'' @ '' or acme'')
       = Inr ''Join <b><b>Acme</b></b> or <b>Acme</b>''"
proof -
  have a: "''MIS'' \<in> set catalog \<and> str_lower ''mis'' = str_lower ''MIS''
      \<and> \<not> py_in (str_lower ''Acme'') (str_lower (bold ''MIS''))"
    by code_simp
  have b: "''Acme Corp'' \<noteq> [] \<and> backslash \<notin> set ''Acme Corp'' \<and> newline \<notin> set ''Acme Corp''
      \<and> CHR ''<'' \<notin> set ''Acme Corp'' \<and> CHR ''>'' \<notin> set ''Acme Corp''
      \<and> CHR ''/'' \<notin> set ''Acme Corp'' \<and> str_lower ''Acme Corp'' \<noteq> ''b''
      \<and> str_lower ''ACME CORP'' = str_lower ''Acme Corp''
      \<and> (\<forall>k \<in> set catalog. \<not> py_in (str_lower k) (str_lower ''ACME CORP''))"
    by code_simp
  have c: "''Acme'' \<noteq> [] \<and> backslash \<notin> set ''Acme'' \<and> CHR ''<'' \<notin> set ''Acme''
      \<and> CHR ''>'' \<notin> set ''Acme'' \<and> CHR ''/'' \<notin> set ''Acme'' \<and> str_lower ''Acme'' \<noteq> ''b''"
    by code_simp
  have d: "spec_wrap_every_occurrence ''Acme'' ''Join '' @ bold (bold ''Acme'')
             @ spec_wrap_every_occurrence ''Acme'' '' or acme''
           = ''Join <b><b>Acme</b></b> or <b>Acme</b>''"
    by code_simp
  have "apply_programmatic_bolding ''mis'' ''Acme'' = Inr (bold ''MIS'')
      \<and> apply_programmatic_bolding (bold ''MIS'') ''Acme'' = Inr (bold (bold ''MIS''))
      \<and> apply_programmatic_bolding ''ACME CORP'' ''Acme Corp'' = Inr (bold ''Acme Corp'')
      \<and> apply_programmatic_bolding (bold ''Acme Corp'') ''Acme Corp''
          = Inr (bold (bold ''Acme Corp''))
      \<and> re_sub_ignorecase ''Acme'' (bold ''Acme'') (''Join '' @ bold ''Acme'' @ '' or acme'')
          = Inr (spec_wrap_every_occurrence ''Acme'' ''Join '' @ bold (bold ''Acme'')
                 @ spec_wrap_every_occurrence ''Acme'' '' or acme'')"
    using a b c
      C2_second_pass_wraps_again
        [where kw = "''MIS''" and m = "''mis''" and company_name = "''Acme''"
           and company_name' = "''Acme Corp''" and m' = "''ACME CORP''"
           and x = "''Acme''" and pre = "''Join ''" and post = "'' or acme''"]
    by blast
  then show ?thesis by (simp only: d) (simp add: bold_def)
qed

section \<open>The keywords of a paragraph\<close>

text \<open>
  Claim C3, as stated: in every paragraph the first three catalog keywords that occur in
  it are selected, and every occurrence of each selected keyword is wrapped. In the
  first text two keywords occur and overlap in one letter: both are selected, the first
  is wrapped, and the occurrence of the second is left without markers. In the second
  text the keyword "data accuracy" occurs in the paragraph, but the company markup is
  inserted first and cuts it, so it is not selected and not wrapped.
\<close>

theorem C3_selected_keyword_left_unwrapped:
  "take 3 (collect_candidates ''reconciliationsystems exposure'')
     = [''reconciliations'', ''systems exposure'']
   \<and> apply_programmatic_bolding ''reconciliationsystems exposure'' ''Acme''
     = Inr ''<b>reconciliations</b>ystems exposure''
   \<and> apply_programmatic_bolding ''Ensuring data accuracy'' ''Data''
     = Inr ''Ensuring <b>Data</b> accuracy''"
  by code_simp

text \<open>
  Claim C3, amended: the keyword step works on the paragraph as the company step left
  it. It selects at most three keywords, the first three of the catalog, in declaration
  order, that occur in that text; it takes them in this order and replaces, for each,
  every occurrence found from the left in the text as rewritten so far by the catalog
  spelling in bold markers. The step never raises. In a text without the company name
  every paragraph of the input is rewritten so.
\<close>

theorem C3_keyword_step:
  "bold_paragraph company_name used_company para =
     (case bold_company company_name used_company para of
        Inl e \<Rightarrow> Inl e
      | Inr (bolded, used) \<Rightarrow> Inr (spec_wrap_selected bolded, used))
   \<and> length (spec_selected_keywords bolded) \<le> 3
   \<and> (\<not> py_in (str_lower company_name) (str_lower text)
        \<longrightarrow> apply_programmatic_bolding text company_name
              = Inr (py_join (map spec_wrap_selected (py_split text))))"
  using bold_paragraph_wrap apply_absent by (simp add: spec_selected_keywords_def)

text \<open>
  A paragraph with five catalog keywords: the first three in catalog order are wrapped,
  at every occurrence, and the other two are left as they are.
\<close>

theorem C3_keyword_step_witness:
  "\<not> py_in (str_lower ''Acme'')
       (str_lower ''MIS, compliance, reconciliations, decision support, data accuracy and mis.'')
   \<and> spec_selected_keywords ''MIS, compliance, reconciliations, decision support, data accuracy and mis.''
     = [''reconciliations'', ''data accuracy'', ''compliance'']
   \<and> apply_programmatic_bolding
       ''MIS, compliance, reconciliations, decision support, data accuracy and mis.'' ''Acme''
     = Inr (py_join (map spec_wrap_selected
         (py_split ''MIS, compliance, reconciliations, decision support, data accuracy and mis.'')))
   \<and> py_join (map spec_wrap_selected
         (py_split ''MIS, compliance, reconciliations, decision support, data accuracy and mis.''))
     = ''MIS, <b>compliance</b>, <b>reconciliations</b>, decision support, <b>data accuracy</b> and mis.''"
proof -
  have a: "\<not> py_in (str_lower ''Acme'')
       (str_lower ''MIS, compliance, reconciliations, decision support, data accuracy and mis.'')"
    by code_simp
  have b: "spec_selected_keywords ''MIS, compliance, reconciliations, decision support, data accuracy and mis.''
     = [''reconciliations'', ''data accuracy'', ''compliance'']"
    by code_simp
  have c: "py_join (map spec_wrap_selected
         (py_split ''MIS, compliance, reconciliations, decision support, data accuracy and mis.''))
     = ''MIS, <b>compliance</b>, <b>reconciliations</b>, decision support, <b>data accuracy</b> and mis.''"
    by code_simp
  show ?thesis
    using a b c
      C3_keyword_step
        [of "''Acme''" _ _ _
            "''MIS, compliance, reconciliations, decision support, data accuracy and mis.''"]
    by blast
qed

section \<open>Texts without the company name and without keywords\<close>

text \<open>
  Claim C4, as stated: when the company name does not occur in the text, the text is
  returned unchanged. The keywords are bolded whether the company name occurs or not.
\<close>

theorem C4_keyword_markup_without_company:
  "\<not> py_in (str_lower ''Acme'') (str_lower ''MIS work'')
   \<and> apply_programmatic_bolding ''MIS work'' ''Acme'' = Inr ''<b>MIS</b> work''
   \<and> apply_programmatic_bolding ''MIS work'' ''Acme'' \<noteq> Inr ''MIS work''"
  by code_simp

text \<open>
  Claim C4, amended: when neither the company name nor any catalog keyword occurs in the
  text (ignoring case), the text is returned unchanged.
\<close>

theorem C4_unchanged_without_company_and_keywords:
  assumes "\<not> py_in (str_lower company_name) (str_lower text)"
      and "\<forall>kw \<in> set catalog. \<not> py_in (str_lower kw) (str_lower text)"
  shows "apply_programmatic_bolding text company_name = Inr text"
proof -
  have "\<forall>p \<in> set (py_split text). spec_wrap_selected p = p"
    using absent_in_paragraph[OF _ _] assms(2) wrap_selected_none by blast
  then have "map spec_wrap_selected (py_split text) = py_split text"
    by (simp add: map_idI)
  then show ?thesis using apply_absent[OF assms(1)] by (simp add: py_join_split)
qed

text \<open>
  The theorem for a text of two paragraphs without the company name and without keywords.
\<close>

theorem C4_unchanged_without_company_and_keywords_witness:
  "apply_programmatic_bolding (''We value integrity.'' @ [newline, newline] @ ''Thank you.'') ''Acme''
     = Inr (''We value integrity.'' @ [newline, newline] @ ''Thank you.'')"
proof -
  have a: "\<not> py_in (str_lower ''Acme'')
             (str_lower (''We value integrity.'' @ [newline, newline] @ ''Thank you.''))"
    by code_simp
  have b: "\<forall>kw \<in> set catalog. \<not> py_in (str_lower kw)
             (str_lower (''We value integrity.'' @ [newline, newline] @ ''Thank you.''))"
    by code_simp
  show ?thesis using C4_unchanged_without_company_and_keywords[OF a b] .
qed

section \<open>The spelling inside the markers\<close>

text \<open>
  Claim C5, as stated: the characters between the bold markers are those of the input
  text, in their original casing. The replacement is built from the company name as
  supplied and from the keyword as the catalog spells it: the lower-case "acme" and
  "mis" of the text come back in upper case.
\<close>

theorem C5_supplied_spelling_replaces_original:
  "apply_programmatic_bolding ''we admire acme for mis'' ''ACME''
     = Inr ''we admire <b>ACME</b> for <b>MIS</b>''
   \<and> apply_programmatic_bolding ''we admire acme for mis'' ''ACME''
     \<noteq> Inr ''we admire <b>acme</b> for <b>mis</b>''"
  by code_simp

text \<open>
  Claim C5, amended: what stands between the bold markers is the company name as
  supplied (a name without backslash), and the keyword as the catalog spells it,
  whatever the casing of the matched text. For a one-paragraph text that is the company
  name in any casing and holds no keyword, the output is the supplied name in markers;
  for a text that is a catalog keyword in any casing, without the company name, the
  output is the catalog spelling in markers. In any text, the substitution that both
  steps call puts the supplied spelling in markers in the place of the first match,
  whatever its characters are.
\<close>

theorem C5_markers_hold_supplied_spelling:
  "(company_name \<noteq> [] \<and> backslash \<notin> set company_name \<and> newline \<notin> set m
      \<and> str_lower m = str_lower company_name
      \<and> (\<forall>kw \<in> set catalog. \<not> py_in (str_lower kw) (str_lower m))
     \<longrightarrow> apply_programmatic_bolding m company_name = Inr (bold company_name))
   \<and> (kw \<in> set catalog \<and> str_lower m' = str_lower kw
      \<and> \<not> py_in (str_lower company_name') (str_lower m')
     \<longrightarrow> apply_programmatic_bolding m' company_name' = Inr (bold kw))
   \<and> (x \<noteq> [] \<and> backslash \<notin> set x \<and> spec_first_occurrence x s = Some i
     \<longrightarrow> re_sub_ignorecase x (bold x) s
           = Inr (take i s @ bold x @ spec_wrap_every_occurrence x (drop (i + length x) s)))"
  using company_variant_first_pass keyword_variant_first_pass re_sub_first_occurrence
  by blast

text \<open>
  The theorem for a company name met in lower case, a keyword met in upper case, and a
  substitution with its first match at index 5.
\<close>

theorem C5_markers_hold_supplied_spelling_witness:
  "apply_programmatic_bolding ''acme corp'' ''Acme Corp'' = Inr ''<b>Acme Corp</b>''
   \<and> apply_programmatic_bolding ''RECORD-TO-REPORT'' ''Acme Corp'' = Inr ''<b>Record-to-Report</b>''
   \<and> re_sub_ignorecase ''Acme'' (bold ''Acme'') ''Join ACME now'' = Inr ''Join <b>Acme</b> now''"
proof -
  have a: "''Acme Corp'' \<noteq> [] \<and> backslash \<notin> set ''Acme Corp'' \<and> newline \<notin> set ''acme corp''
      \<and> str_lower ''acme corp'' = str_lower ''Acme Corp''
      \<and> (\<forall>kw \<in> set catalog. \<not> py_in (str_lower kw) (str_lower ''acme corp''))"
    by code_simp
  have b: "''Record-to-Report'' \<in> set catalog
      \<and> str_lower ''RECORD-TO-REPORT'' = str_lower ''Record-to-Report''
      \<and> \<not> py_in (str_lower ''Acme Corp'') (str_lower ''RECORD-TO-REPORT'')"
    by code_simp
  have c: "''Acme'' \<noteq> [] \<and> backslash \<notin> set ''Acme''
      \<and> spec_first_occurrence ''Acme'' ''Join ACME now'' = Some 5"
    by code_simp
  have d: "take 5 ''Join ACME now'' @ bold ''Acme''
             @ spec_wrap_every_occurrence ''Acme'' (drop (5 + length ''Acme'') ''Join ACME now'')
           = ''Join <b>Acme</b> now''"
    by code_simp
  have "apply_programmatic_bolding ''acme corp'' ''Acme Corp'' = Inr (bold ''Acme Corp'')
      \<and> apply_programmatic_bolding ''RECORD-TO-REPORT'' ''Acme Corp''
          = Inr (bold ''Record-to-Report'')
      \<and> re_sub_ignorecase ''Acme'' (bold ''Acme'') ''Join ACME now''
          = Inr (take 5 ''Join ACME now'' @ bold ''Acme''
                 @ spec_wrap_every_occurrence ''Acme'' (drop (5 + length ''Acme'') ''Join ACME now''))"
    using a b c
      C5_markers_hold_supplied_spelling
        [where company_name = "''Acme Corp''" and m = "''acme corp''"
           and kw = "''Record-to-Report''" and m' = "''RECORD-TO-REPORT''"
           and company_name' = "''Acme Corp''"
           and x = "''Acme''" and s = "''Join ACME now''" and i = 5]
    by blast
  then show ?thesis by (simp only: d) (simp add: bold_def)
qed

section \<open>A backslash in the company name\<close>

text \<open>
  Claim C6: \<open>apply_programmatic_bolding\<close> never raises, for any text and any non-empty
  company name, and matches the name literally. The pattern is escaped, the replacement
  \<open><b>{company_name}</b>\<close> is not: a company name with a backslash is read as a
  replacement template. For the name \<open>R\D Labs\<close>, present in the text, the
  template holds the unknown escape \<open>\D\<close>; for the name \<open>A\1\<close> it refers to
  group 1 of a pattern without groups. In both cases \<open>re.sub\<close> raises.
\<close>

theorem C6_backslash_in_company_raises:
  "apply_programmatic_bolding
     (''I want to join R'' @ [backslash] @ ''D Labs.'') (''R'' @ [backslash] @ ''D Labs'')
     = Inl Template_error
   \<and> apply_programmatic_bolding
       (''Join A'' @ [backslash] @ ''1 Ltd'') (''A'' @ [backslash] @ ''1'')
     = Inl Template_error"
  by code_simp

text \<open>
  The pattern is matched literally: the dot of the name \<open>a.c\<close> matches a dot only.
\<close>

lemma pattern_matched_literally:
  "apply_programmatic_bolding ''abc and a.c'' ''a.c'' = Inr ''abc and <b>a.c</b>''"
  by code_simp

text \<open>
  Without a backslash in the company name the template is literal text, and no step of
  the function raises.
\<close>

lemma bold_company_no_error:
  "backslash \<notin> set company_name \<Longrightarrow> \<exists>r. bold_company company_name used para = Inr r"
  by (auto simp: bold_company_def re_sub_ignorecase_def parse_template_plain backslash_bold)

lemma bold_loop_no_error:
  "backslash \<notin> set company_name \<Longrightarrow> \<exists>r. bold_loop company_name used result paras = Inr r"
proof (induction paras arbitrary: used result)
  case (Cons para paras)
  obtain b u where "bold_company company_name used para = Inr (b, u)"
    using bold_company_no_error[OF Cons.prems] by fastforce
  then show ?case using Cons by (simp add: bold_paragraph_wrap)
qed simp

lemma no_error_without_backslash:
  "backslash \<notin> set company_name \<Longrightarrow> \<exists>r. apply_programmatic_bolding text company_name = Inr r"
  using bold_loop_no_error[of company_name False "[]" "py_split text"]
  by (auto simp: apply_programmatic_bolding_def)

section \<open>The assembled document\<close>

lemma append_paragraphs_eq:
  "append_paragraphs accepts elements paras =
     (if list_all accepts paras
      then Inr (elements @ map (\<lambda>para. Paragraph para Body) paras)
      else Inl Markup_error)"
  by (induction paras arbitrary: elements) (simp_all add: make_paragraph_def)

lemma create_pdf_eq:
  "create_pdf accepts upper today text d =
     (if accepts (header_text upper today d) \<and> list_all accepts (py_split text)
         \<and> accepts (closing_text d)
      then Inr (Paragraph (header_text upper today d) Header
                # map (\<lambda>para. Paragraph para Body) (py_split text)
                @ [Paragraph (closing_text d) Header])
      else Inl Markup_error)"
  by (simp add: create_pdf_def make_paragraph_def append_paragraphs_eq)

lemma spec_lines_plain: "CHR ''<'' \<notin> set a \<Longrightarrow> spec_lines a = [a]"
  by (induction a) auto

lemma spec_lines_br:
  "CHR ''<'' \<notin> set a \<Longrightarrow> spec_lines (a @ ''<br/>'' @ rest) = a # spec_lines rest"
  by (induction a) auto

lemma closing_lines:
  assumes "CHR ''<'' \<notin> set (name d)" and "CHR ''<'' \<notin> set (mobile d)"
      and "CHR ''<'' \<notin> set (email d)" and "CHR ''<'' \<notin> set (linkedin d)"
  shows "spec_lines (closing_text d) =
           [[newline] @ ''Sincerely,'', [], [newline] @ name d, [newline] @ mobile d,
            [newline] @ email d, [newline] @ linkedin d @ [newline]]"
proof -
  define r5 where "r5 = [newline] @ linkedin d @ [newline]"
  define r4 where "r4 = ([newline] @ email d) @ ''<br/>'' @ r5"
  define r3 where "r3 = ([newline] @ mobile d) @ ''<br/>'' @ r4"
  define r2 where "r2 = ([newline] @ name d) @ ''<br/>'' @ r3"
  define r1 where "r1 = [] @ ''<br/>'' @ r2"
  have nl: "CHR ''<'' \<notin> set [newline]" by (simp add: newline_def)
  have c: "closing_text d = ([newline] @ ''Sincerely,'') @ ''<br/>'' @ r1"
    by (simp add: closing_text_def r1_def r2_def r3_def r4_def r5_def)
  have "spec_lines r5 = [r5]"
    unfolding r5_def using assms(4) nl by (intro spec_lines_plain) simp
  moreover have "spec_lines r4 = ([newline] @ email d) # spec_lines r5"
    unfolding r4_def using assms(3) nl by (intro spec_lines_br) simp
  moreover have "spec_lines r3 = ([newline] @ mobile d) # spec_lines r4"
    unfolding r3_def using assms(2) nl by (intro spec_lines_br) simp
  moreover have "spec_lines r2 = ([newline] @ name d) # spec_lines r3"
    unfolding r2_def using assms(1) nl by (intro spec_lines_br) simp
  moreover have "spec_lines r1 = [] # spec_lines r2"
    unfolding r1_def by (intro spec_lines_br) simp
  moreover have "spec_lines (closing_text d) = ([newline] @ ''Sincerely,'') # spec_lines r1"
    unfolding c using nl by (intro spec_lines_br) simp
  ultimately show ?thesis by (simp add: r5_def)
qed

text \<open>
  Claim C7, as stated: for every emphasized text \<open>create_pdf\<close> assembles the header
  block, the body blocks and the closing block. The constructor \<open>Paragraph\<close> parses
  its text and raises on markup it rejects, before the later blocks are built. ReportLab
  rejects a paragraph whose \<open><b>\<close> is never closed; with a constructor that rejects
  the first paragraph of this text, \<open>create_pdf\<close> raises and no list of blocks is
  built. (The name is in upper case already, so \<open>str.upper\<close> returns it.)
\<close>

theorem C7_rejected_markup_raises:
  "create_pdf (\<lambda>t. t \<noteq> ''Join <b>Acme now.'') (\<lambda>n. n) ''04 March 2025''
     (''Join <b>Acme now.'' @ [newline, newline] @ ''Second.'')
     \<lparr>name = ''ASHA RAO'', company = ''Acme'', role = ''Analyst'', email = [], mobile = [],
      linkedin = []\<rparr>
   = Inl Markup_error"
  by code_simp

text \<open>
  Claim C7, amended: when the constructor accepts the header text, each of the N
  paragraphs of the text and the closing text, \<open>create_pdf\<close> assembles one header
  block, then the N paragraphs as body blocks in their order, then one closing block,
  N + 2 blocks in all; when it rejects one of them, \<open>create_pdf\<close> raises and
  assembles nothing. The lines of the closing block are "Sincerely,", an empty line,
  then name, mobile, email and LinkedIn URL, each on its own line, in this order; all
  six lines are there whatever the four fields hold, also when they are empty (for
  fields without \<open><\<close>, which would start markup of their own).
\<close>

theorem C7_document_structure:
  "create_pdf accepts upper today text d =
     (if accepts (header_text upper today d) \<and> list_all accepts (py_split text)
         \<and> accepts (closing_text d)
      then Inr (Paragraph (header_text upper today d) Header
                # map (\<lambda>para. Paragraph para Body) (py_split text)
                @ [Paragraph (closing_text d) Header])
      else Inl Markup_error)
   \<and> (create_pdf accepts upper today text d = Inr elements
        \<longrightarrow> length elements = 1 + length (py_split text) + 1)
   \<and> (CHR ''<'' \<notin> set (name d) \<and> CHR ''<'' \<notin> set (mobile d)
        \<and> CHR ''<'' \<notin> set (email d) \<and> CHR ''<'' \<notin> set (linkedin d)
        \<longrightarrow> spec_lines (closing_text d) =
              [[newline] @ ''Sincerely,'', [], [newline] @ name d, [newline] @ mobile d,
               [newline] @ email d, [newline] @ linkedin d @ [newline]])"
  using closing_lines[of d] by (auto simp: create_pdf_eq split: if_splits)

text \<open>
  The theorem for a text of five paragraphs and a profile whose optional fields are
  empty: seven blocks, and a closing block of six lines, the last three empty.
\<close>

theorem C7_document_structure_witness:
  "create_pdf (\<lambda>t. t \<noteq> ''Join <b>Acme now.'') (\<lambda>n. n) ''04 March 2025''
     (''One.'' @ [newline, newline] @ ''Two <b>MIS</b>.'' @ [newline, newline] @ ''Three.''
      @ [newline, newline] @ ''Four.'' @ [newline, newline] @ ''Five.'')
     \<lparr>name = ''ASHA RAO'', company = ''Acme'', role = ''Analyst'', email = [], mobile = [],
      linkedin = []\<rparr>
   = Inr [Paragraph ''<b>ASHA RAO</b><br/>Date: 04 March 2025<br/><br/>Dear Hiring Manager,<br/><br/>''
            Header,
          Paragraph ''One.'' Body, Paragraph ''Two <b>MIS</b>.'' Body, Paragraph ''Three.'' Body,
          Paragraph ''Four.'' Body, Paragraph ''Five.'' Body,
          Paragraph
            (closing_text \<lparr>name = ''ASHA RAO'', company = ''Acme'', role = ''Analyst'',
               email = [], mobile = [], linkedin = []\<rparr>) Header]
   \<and> spec_lines
        (closing_text \<lparr>name = ''ASHA RAO'', company = ''Acme'', role = ''Analyst'',
           email = [], mobile = [], linkedin = []\<rparr>)
     = [[newline] @ ''Sincerely,'', [], [newline] @ ''ASHA RAO'', [newline], [newline],
        [newline, newline]]"
proof -
  let ?A = "\<lambda>t. t \<noteq> ''Join <b>Acme now.''"
  let ?T = "''One.'' @ [newline, newline] @ ''Two <b>MIS</b>.'' @ [newline, newline] @ ''Three.''
      @ [newline, newline] @ ''Four.'' @ [newline, newline] @ ''Five.''"
  let ?d = "\<lparr>name = ''ASHA RAO'', company = ''Acme'', role = ''Analyst'', email = [],
      mobile = [], linkedin = []\<rparr>"
  note t = C7_document_structure[of ?A "\<lambda>n. n" "''04 March 2025''" ?T ?d]
  have a: "(if ?A (header_text (\<lambda>n. n) ''04 March 2025'' ?d) \<and> list_all ?A (py_split ?T)
               \<and> ?A (closing_text ?d)
            then Inr (Paragraph (header_text (\<lambda>n. n) ''04 March 2025'' ?d) Header
                      # map (\<lambda>para. Paragraph para Body) (py_split ?T)
                      @ [Paragraph (closing_text ?d) Header])
            else Inl Markup_error)
           = Inr [Paragraph ''<b>ASHA RAO</b><br/>Date: 04 March 2025<br/><br/>Dear Hiring Manager,<br/><br/>''
                    Header,
                  Paragraph ''One.'' Body, Paragraph ''Two <b>MIS</b>.'' Body,
                  Paragraph ''Three.'' Body, Paragraph ''Four.'' Body, Paragraph ''Five.'' Body,
                  Paragraph (closing_text ?d) Header]"
    by code_simp
  have b: "CHR ''<'' \<notin> set (name ?d) \<and> CHR ''<'' \<notin> set (mobile ?d)
        \<and> CHR ''<'' \<notin> set (email ?d) \<and> CHR ''<'' \<notin> set (linkedin ?d)"
    by simp
  have "create_pdf ?A (\<lambda>n. n) ''04 March 2025'' ?T ?d
        = Inr [Paragraph ''<b>ASHA RAO</b><br/>Date: 04 March 2025<br/><br/>Dear Hiring Manager,<br/><br/>''
                    Header,
                  Paragraph ''One.'' Body, Paragraph ''Two <b>MIS</b>.'' Body,
                  Paragraph ''Three.'' Body, Paragraph ''Four.'' Body, Paragraph ''Five.'' Body,
                  Paragraph (closing_text ?d) Header]"
    using t a by (simp only:)
  moreover have "spec_lines (closing_text ?d)
     = [[newline] @ ''Sincerely,'', [], [newline] @ name ?d, [newline] @ mobile ?d,
        [newline] @ email ?d, [newline] @ linkedin ?d @ [newline]]"
    using t b by blast
  ultimately show ?thesis by simp
qed

section \<open>Submitting the form\<close>

text \<open>
  Claim C8: when the resume, the name, the company or the role is missing at submission,
  generation is refused: the mandatory-field error is shown, no prompt is sent to the
  text-generation service and the session state is left as it was. When all four are
  present, the pipeline runs: the resume and the job description are extracted, the
  prompt built from them is sent to the service, the response is stripped and bolded
  with the company name, and the draft and the data are stored in the session; when the
  service or the bolding raises, the session is left as it was.
\<close>

theorem C8_mandatory_fields:
  "(resume f = None \<or> name_input f = [] \<or> company_input f = [] \<or> role_input f = []
      \<longrightarrow> submit_block service f s =
            \<lparr>session = s, errors_shown = [mandatory_error], prompts_sent = [], raised = None\<rparr>)
   \<and> (resume f = Some r \<and> name_input f \<noteq> [] \<and> company_input f \<noteq> [] \<and> role_input f \<noteq> []
      \<longrightarrow> submit_block service f s =
            (let prompt = prompt_text (extract_text r)
                            (case jd f of None \<Rightarrow> [] | Some jd_file \<Rightarrow> extract_text jd_file)
                            (form_data f) (tone_input f)
             in case service prompt of
                  None \<Rightarrow>
                    \<lparr>session = s, errors_shown = [], prompts_sent = [prompt],
                     raised = Some Service_error\<rparr>
                | Some content \<Rightarrow>
                    (case apply_programmatic_bolding (str_strip content) (company_input f) of
                       Inl e \<Rightarrow>
                         \<lparr>session = s, errors_shown = [], prompts_sent = [prompt],
                          raised = Some (Bolding_error e)\<rparr>
                     | Inr bolded \<Rightarrow>
                         \<lparr>session = \<lparr>draft = Some bolded, session_data = Some (form_data f)\<rparr>,
                          errors_shown = [], prompts_sent = [prompt], raised = None\<rparr>)))"
  by (simp add: submit_block_def generate_cover_letter_def Let_def
        split: sum.splits option.splits)

text \<open>
  The theorem at a form without a role, and at the same form with the role filled in.
\<close>

theorem C8_mandatory_fields_witness:
  "submit_block (\<lambda>p. Some ''  We at Acme value compliance.  '')
     \<lparr>resume = Some [Some ''Chartered Accountant''], jd = None, name_input = ''Asha Rao'',
      company_input = ''Acme'', role_input = [], tone_input = ''Professional Firm'',
      email_input = [], mobile_input = [], linkedin_input = []\<rparr>
     \<lparr>draft = None, session_data = None\<rparr>
   = \<lparr>session = \<lparr>draft = None, session_data = None\<rparr>, errors_shown = [mandatory_error],
      prompts_sent = [], raised = None\<rparr>
   \<and> submit_block (\<lambda>p. Some ''  We at Acme value compliance.  '')
       \<lparr>resume = Some [Some ''Chartered Accountant''], jd = None, name_input = ''Asha Rao'',
        company_input = ''Acme'', role_input = ''Analyst'', tone_input = ''Professional Firm'',
        email_input = [], mobile_input = [], linkedin_input = []\<rparr>
       \<lparr>draft = None, session_data = None\<rparr>
     = \<lparr>session =
          \<lparr>draft = Some ''We at <b>Acme</b> value <b>compliance</b>.'',
           session_data =
             Some \<lparr>name = ''Asha Rao'', company = ''Acme'', role = ''Analyst'', email = [],
                   mobile = [], linkedin = []\<rparr>\<rparr>,
        errors_shown = [],
        prompts_sent =
          [prompt_text (extract_text [Some ''Chartered Accountant'']) []
             \<lparr>name = ''Asha Rao'', company = ''Acme'', role = ''Analyst'', email = [],
              mobile = [], linkedin = []\<rparr>
             ''Professional Firm''],
        raised = None\<rparr>"
proof -
  have b: "apply_programmatic_bolding (str_strip ''  We at Acme value compliance.  '') ''Acme''
             = Inr ''We at <b>Acme</b> value <b>compliance</b>.''"
    by code_simp
  show ?thesis
    using b
      C8_mandatory_fields
        [where f = "\<lparr>resume = Some [Some ''Chartered Accountant''], jd = None,
                      name_input = ''Asha Rao'', company_input = ''Acme'', role_input = [],
                      tone_input = ''Professional Firm'', email_input = [], mobile_input = [],
                      linkedin_input = []\<rparr>"
           and service = "\<lambda>p. Some ''  We at Acme value compliance.  ''"
           and s = "\<lparr>draft = None, session_data = None\<rparr>"]
      C8_mandatory_fields
        [where f = "\<lparr>resume = Some [Some ''Chartered Accountant''], jd = None,
                      name_input = ''Asha Rao'', company_input = ''Acme'',
                      role_input = ''Analyst'', tone_input = ''Professional Firm'',
                      email_input = [], mobile_input = [], linkedin_input = []\<rparr>"
           and r = "[Some ''Chartered Accountant'']"
           and service = "\<lambda>p. Some ''  We at Acme value compliance.  ''"
           and s = "\<lparr>draft = None, session_data = None\<rparr>"]
    by (simp add: form_data_def Let_def)
qed

text \<open>
  Claim C9: when no job-description document is supplied, the job-description section of
  the prompt is the literal string "Not provided". With an empty job-description text,
  the prompt that \<open>generate_cover_letter\<close> passes to the service holds "Not provided"
  between the text before and the text after that section; and the submit block, for a
  form without job-description document, calls the service with that prompt.
\<close>

theorem C9_no_jd_not_provided:
  "generate_cover_letter service requests resume_text [] d tone =
     (let prompt = prompt_before_jd resume_text d tone @ ''Not provided'' @ prompt_after_jd
      in (requests @ [prompt],
          case service prompt of
            None \<Rightarrow> Inl Service_error
          | Some content \<Rightarrow> Inr (str_strip content)))
   \<and> (jd f = None \<and> resume f = Some r \<and> name_input f \<noteq> [] \<and> company_input f \<noteq> []
        \<and> role_input f \<noteq> []
      \<longrightarrow> submit_block service f s =
            (let prompt = prompt_before_jd (extract_text r) (form_data f) (tone_input f)
                          @ ''Not provided'' @ prompt_after_jd
             in case service prompt of
                  None \<Rightarrow>
                    \<lparr>session = s, errors_shown = [], prompts_sent = [prompt],
                     raised = Some Service_error\<rparr>
                | Some content \<Rightarrow>
                    (case apply_programmatic_bolding (str_strip content) (company_input f) of
                       Inl e \<Rightarrow>
                         \<lparr>session = s, errors_shown = [], prompts_sent = [prompt],
                          raised = Some (Bolding_error e)\<rparr>
                     | Inr bolded \<Rightarrow>
                         \<lparr>session = \<lparr>draft = Some bolded, session_data = Some (form_data f)\<rparr>,
                          errors_shown = [], prompts_sent = [prompt], raised = None\<rparr>)))"
  by (simp add: submit_block_def generate_cover_letter_def Let_def prompt_text_def
        jd_section_def split: sum.splits option.splits)

text \<open>
  The theorem for a form with a resume, all mandatory fields and no job description.
\<close>

theorem C9_no_jd_not_provided_witness:
  "submit_block (\<lambda>p. None)
     \<lparr>resume = Some [Some ''Audit and reconciliations''], jd = None,
      name_input = ''Asha Rao'', company_input = ''Acme'', role_input = ''Analyst'',
      tone_input = ''Startup / Growth'', email_input = [], mobile_input = [],
      linkedin_input = []\<rparr>
     \<lparr>draft = None, session_data = None\<rparr>
   = \<lparr>session = \<lparr>draft = None, session_data = None\<rparr>, errors_shown = [],
      prompts_sent =
        [prompt_before_jd (extract_text [Some ''Audit and reconciliations''])
           \<lparr>name = ''Asha Rao'', company = ''Acme'', role = ''Analyst'', email = [],
            mobile = [], linkedin = []\<rparr>
           ''Startup / Growth''
         @ ''Not provided'' @ prompt_after_jd],
      raised = Some Service_error\<rparr>"
  using
    C9_no_jd_not_provided
      [where f = "\<lparr>resume = Some [Some ''Audit and reconciliations''], jd = None,
                    name_input = ''Asha Rao'', company_input = ''Acme'',
                    role_input = ''Analyst'', tone_input = ''Startup / Growth'',
                    email_input = [], mobile_input = [], linkedin_input = []\<rparr>"
         and r = "[Some ''Audit and reconciliations'']"
         and service = "\<lambda>p. None"
         and s = "\<lparr>draft = None, session_data = None\<rparr>"]
  by (simp add: form_data_def Let_def)

text \<open>
  Claim C10: a job-description document whose extracted text is empty gives the same
  prompt as no job-description document: both put "Not provided" in the job-description
  section, and the whole submit block behaves the same.
\<close>

theorem C10_empty_jd_same_prompt:
  "extract_text jd_file = [] \<Longrightarrow>
     prompt_text resume_text (extract_text jd_file) d tone = prompt_text resume_text [] d tone
   \<and> jd_section (extract_text jd_file) = ''Not provided''
   \<and> submit_block service (f\<lparr>jd := Some jd_file\<rparr>) s = submit_block service (f\<lparr>jd := None\<rparr>) s"
  by (simp add: submit_block_def Let_def jd_section_def form_data_def
        split: sum.splits prod.splits)

text \<open>
  A document of three pages without text: no page, an empty page, a page of blanks.
\<close>

theorem C10_empty_jd_same_prompt_witness:
  "extract_text [None, Some [], Some ''  ''] = []
   \<and> prompt_text ''Audit'' (extract_text [None, Some [], Some ''  ''])
        \<lparr>name = ''Asha Rao'', company = ''Acme'', role = ''Analyst'', email = [],
         mobile = [], linkedin = []\<rparr> ''Professional Firm''
     = prompt_text ''Audit'' []
        \<lparr>name = ''Asha Rao'', company = ''Acme'', role = ''Analyst'', email = [],
         mobile = [], linkedin = []\<rparr> ''Professional Firm''
   \<and> jd_section (extract_text [None, Some [], Some ''  '']) = ''Not provided''"
proof -
  have e: "extract_text [None, Some [], Some ''  ''] = []"
    by code_simp
  show ?thesis
    using e C10_empty_jd_same_prompt
      [OF e, where resume_text = "''Audit''" and tone = "''Professional Firm''"
       and d = "\<lparr>name = ''Asha Rao'', company = ''Acme'', role = ''Analyst'', email = [],
                   mobile = [], linkedin = []\<rparr>"]
    by simp
qed

end
